theory Spec2Isabelle
  imports Main "HOL-Library.Word"
begin

unbundle bit_operations_syntax

section \<open>Errors\<close>

text \<open>
  Modelled from the spec: the error classes of the driver's error module, which is not
  among the sources. These are the classes the modelled code raises or inspects; the
  driver's own all derive from \<open>MongoError\<close>. \<open>TypeError\<close>, \<open>RangeError\<close>,
  \<open>URIError\<close> and \<open>OtherError\<close> stand for JavaScript errors that are not driver
  errors (\<open>instanceof MongoError\<close> is false).
\<close>

datatype error_kind =
    MongoError
  | MongoRuntimeError
  | MongoInvalidArgumentError
  | MongoParseError
  | MongoNotConnectedError
  | MongoExpiredSessionError
  | MongoCompatibilityError
  | MongoTransactionError
  | MongoUnexpectedServerResponseError
  | MongoServerError
  | MongoNetworkError
  | TypeError
  | RangeError
  | URIError
  | OtherError

text \<open>
  Modelled from the spec: an error object, with its class, message, numeric \<open>code\<close>
  (when present), zero or more error labels, and the error it wraps (the
  \<open>operationError\<close> property set by the MMAPv1 rewrite).
\<close>

datatype error =
  Err (kind: error_kind) (message: string) (code: "int option") (labels: "string list")
      (err_operationError: "error option")

definition mk_error :: "error_kind \<Rightarrow> string \<Rightarrow> error" where
  "mk_error k msg = Err k msg None [] None"

section \<open>State transition guard (\<open>makeStateMachine\<close>)\<close>

text \<open>
  \<open>ObjectWithState\<close>: the target's \<open>s.state\<close> and the notifications it has emitted, each
  \<open>(event, previous, current)\<close>, oldest first. \<open>emit\<close> appends to that log.
\<close>

record ObjectWithState =
  s_state :: string
  emitted :: "(string \<times> string \<times> string) list"

text \<open>The table is an object used as a dictionary from state names to arrays of state
  names (its declared type); the model is the map of its entries.\<close>

type_synonym StateTable = "string \<rightharpoonup> string list"

definition emit :: "string \<Rightarrow> string \<Rightarrow> string \<Rightarrow> ObjectWithState \<Rightarrow> ObjectWithState" where
  "emit event a b target = target\<lparr>emitted := emitted target @ [(event, a, b)]\<rparr>"

text \<open>\<open>Array.prototype.indexOf\<close>: the first index holding the value, or \<open>-1\<close>.\<close>

primrec indexOf :: "'a list \<Rightarrow> 'a \<Rightarrow> int" where
  "indexOf [] x = -1"
| "indexOf (y # ys) x =
     (if y = x then 0 else (let i = indexOf ys x in if i < 0 then -1 else i + 1))"

text \<open>\<open>Array.prototype.join\<close>, which is also how a template literal prints an array
  (separator \<open>,\<close>).\<close>

fun join :: "string \<Rightarrow> string list \<Rightarrow> string" where
  "join sep [] = []"
| "join sep [x] = x"
| "join sep (x # y # ys) = x @ sep @ join sep (y # ys)"

definition illegal_transition_message :: "string \<Rightarrow> string \<Rightarrow> string list \<Rightarrow> string" where
  "illegal_transition_message old new legalStates =
     ''illegal state transition from ['' @ old @ ''] => ['' @ new @ ''], allowed: [''
       @ join '','' legalStates @ '']''"

text \<open>
  \<open>makeStateMachine(stateTable)\<close> returns \<open>stateTransition(target, newState)\<close>. The result
  pairs the outcome (\<open>Inl\<close> the thrown error) with the target as the call leaves it.
  A state with no entry in the table gives \<open>undefined\<close>, which is falsy; an array, even an
  empty one, is truthy.
\<close>

definition makeStateMachine ::
  "StateTable \<Rightarrow> ObjectWithState \<Rightarrow> string \<Rightarrow> (error + unit) \<times> ObjectWithState" where
  "makeStateMachine stateTable target newState =
     (let legalStates = stateTable (s_state target) in
      if (case legalStates of None \<Rightarrow> False | Some ls \<Rightarrow> indexOf ls newState < 0)
      then (Inl (mk_error MongoRuntimeError
                  (illegal_transition_message (s_state target) newState (the legalStates))),
            target)
      else (Inr (), (emit ''stateChanged'' (s_state target) newState target)\<lparr>s_state := newState\<rparr>))"

section \<open>Sequence container (\<open>List\<close>) and byte buffers\<close>

text \<open>
  The driver's \<open>List\<close> is a circular doubly-linked list with a sentinel head and a
  separately tracked count. Its observable content is the sequence of values from
  \<open>head.next\<close> round to the head, which is what a HOL list holds: \<open>push\<close> adds at the
  end, \<open>unshift\<close> at the front, \<open>shift\<close> removes the front value (or answers \<open>null\<close> and
  leaves the list alone when it is empty), \<open>first\<close> reads the front value.
\<close>

definition push :: "'a list \<Rightarrow> 'a \<Rightarrow> 'a list" where
  "push xs v = xs @ [v]"

definition unshift :: "'a list \<Rightarrow> 'a \<Rightarrow> 'a list" where
  "unshift xs v = v # xs"

definition shift :: "'a list \<Rightarrow> 'a option \<times> 'a list" where
  "shift xs = (case xs of [] \<Rightarrow> (None, []) | x # rest \<Rightarrow> (Some x, rest))"

definition first :: "'a list \<Rightarrow> 'a option" where
  "first xs = (case xs of [] \<Rightarrow> None | x # _ \<Rightarrow> Some x)"

type_synonym byte = "8 word"
type_synonym Buffer = "byte list"

text \<open>\<open>Buffer.alloc(n)\<close> is zero filled. Node leaves the content of
  \<open>Buffer.allocUnsafe(n)\<close> unspecified; the model takes zeros, and \<open>read_loop\<close> below is
  stated for any initial content.\<close>

definition alloc :: "int \<Rightarrow> Buffer" where
  "alloc n = replicate (nat n) 0"

definition allocUnsafe :: "int \<Rightarrow> Buffer" where
  "allocUnsafe n = replicate (nat n) 0"

text \<open>\<open>buf.subarray(start, end)\<close>: negative indices count from the end, and both are
  clamped to the buffer.\<close>

definition subarray :: "Buffer \<Rightarrow> int \<Rightarrow> int \<Rightarrow> Buffer" where
  "subarray buf start end' =
     (let len = int (length buf);
          b = (if start < 0 then max (len + start) 0 else min start len);
          e = (if end' < 0 then max (len + end') 0 else min end' len)
      in take (nat (max (e - b) 0)) (drop (nat b) buf))"

definition subarray_from :: "Buffer \<Rightarrow> int \<Rightarrow> Buffer" where
  "subarray_from buf start = subarray buf start (int (length buf))"

text \<open>\<open>target.set(source, offset)\<close> copies \<open>source\<close> into \<open>target\<close> at \<open>offset\<close>; it
  throws a \<open>RangeError\<close> when the source does not fit.\<close>

definition set_at :: "Buffer \<Rightarrow> Buffer \<Rightarrow> int \<Rightarrow> error + Buffer" where
  "set_at target source offset =
     (if offset < 0 \<or> int (length target) < offset + int (length source)
      then Inl (mk_error RangeError ''offset is out of bounds'')
      else Inr (take (nat offset) target @ source
                  @ drop (nat offset + length source) target))"

text \<open>\<open>buf.readInt32LE(0)\<close>, as Node computes it:
  \<open>first + this[1] * 2 ** 8 + this[2] * 2 ** 16 + (last << 24)\<close>, where \<open><<\<close> works on
  32-bit two's complement; a \<open>RangeError\<close> when the buffer has fewer than 4 bytes.\<close>

definition readInt32LE :: "Buffer \<Rightarrow> error + int" where
  "readInt32LE buf =
     (case buf of
        b0 # b1 # b2 # b3 # _ \<Rightarrow>
          Inr (uint b0 + uint b1 * 2 ^ 8 + uint b2 * 2 ^ 16
                 + sint (push_bit 24 (ucast b3 :: 32 word)))
      | _ \<Rightarrow> Inl (mk_error RangeError ''Attempt to access memory outside buffer bounds''))"

section \<open>Byte buffer pool (\<open>BufferPool\<close>)\<close>

record BufferPool =
  buffers :: "Buffer list"
  totalByteLength :: int

definition new_BufferPool :: BufferPool where
  "new_BufferPool = \<lparr>buffers = [], totalByteLength = 0\<rparr>"

definition append :: "BufferPool \<Rightarrow> Buffer \<Rightarrow> BufferPool" where
  "append pool buffer =
     pool\<lparr>buffers := push (buffers pool) buffer,
          totalByteLength := totalByteLength pool + int (length buffer)\<rparr>"

text \<open>
  The loop of \<open>read\<close>: \<open>for (let bytesRead = 0; bytesRead < size; ) { ... }\<close>, with the
  result buffer, the count read so far and the pool as its state. \<open>break\<close> on an empty
  list returns what has been copied so far.
\<close>

function read_loop ::
  "int \<Rightarrow> Buffer \<Rightarrow> int \<Rightarrow> BufferPool \<Rightarrow> (error + Buffer) \<times> BufferPool" where
  "read_loop size' result bytesRead pool =
     (if bytesRead < size' then
        (case shift (buffers pool) of
           (None, rest) \<Rightarrow> (Inr result, pool\<lparr>buffers := rest\<rparr>)
         | (Some buffer, rest) \<Rightarrow>
             (let bytesRemaining = size' - bytesRead;
                  bytesReadable = min bytesRemaining (int (length buffer));
                  bytes = subarray buffer 0 bytesReadable
              in case set_at result bytes bytesRead of
                   Inl e \<Rightarrow> (Inl e, pool\<lparr>buffers := rest\<rparr>)
                 | Inr result' \<Rightarrow>
                     read_loop size' result' (bytesRead + bytesReadable)
                       (pool\<lparr>buffers :=
                               (if bytesReadable < int (length buffer)
                                then unshift rest (subarray_from buffer bytesReadable)
                                else rest),
                             totalByteLength := totalByteLength pool - bytesReadable\<rparr>)))
      else (Inr result, pool))"
  by pat_completeness auto
termination
proof (relation "measures [\<lambda>(size', result, bytesRead, pool). nat (size' - bytesRead),
                           \<lambda>(size', result, bytesRead, pool). length (buffers pool)]",
       goal_cases)
  case 1
  show ?case by simp
next
  case (2 size' result bytesRead pool x1 x2 buffer x xa xb result')
  then show ?case
    by (auto simp: shift_def unshift_def min_def split: list.splits if_splits)
qed

declare read_loop.simps [simp del]

definition read :: "BufferPool \<Rightarrow> int \<Rightarrow> (error + Buffer) \<times> BufferPool" where
  "read pool size' =
     (if size' < 0
      then (Inl (mk_error MongoInvalidArgumentError
                  (''Argument '' @ [CHR 0x22] @ ''size'' @ [CHR 0x22]
                    @ '' must be a non-negative number'')), pool)
      else if size' > totalByteLength pool then (Inr (alloc 0), pool)
      else read_loop size' (allocUnsafe size') 0 pool)"

definition getInt32 :: "BufferPool \<Rightarrow> (error + int option) \<times> BufferPool" where
  "getInt32 pool =
     (if totalByteLength pool < 4 then (Inr None, pool)
      else
        (case (case first (buffers pool) of
                 None \<Rightarrow> None
               | Some firstBuffer \<Rightarrow>
                   if int (length firstBuffer) \<ge> 4 then Some firstBuffer else None) of
           Some firstBuffer \<Rightarrow>
             (case readInt32LE firstBuffer of
                Inl e \<Rightarrow> (Inl e, pool)
              | Inr v \<Rightarrow> (Inr (Some v), pool))
         | None \<Rightarrow>
             (case read pool 4 of
                (Inl e, pool1) \<Rightarrow> (Inl e, pool1)
              | (Inr top4Bytes, pool1) \<Rightarrow>
                  (case readInt32LE top4Bytes of
                     Inl e \<Rightarrow> (Inl e, pool1)
                   | Inr v \<Rightarrow>
                       (Inr (Some v),
                        pool1\<lparr>totalByteLength := totalByteLength pool1 + 4,
                              buffers := unshift (buffers pool1) top4Bytes\<rparr>)))))"

text \<open>
  What the specification calls the little-endian 32-bit integer of a byte sequence:
  the bytes weighted by powers of 256, least significant first, read as a 32-bit two's
  complement number.
\<close>

definition le_unsigned :: "byte list \<Rightarrow> int" where
  "le_unsigned bs = foldr (\<lambda>b acc. uint b + 256 * acc) bs 0"

definition le_int32 :: "byte list \<Rightarrow> int" where
  "le_int32 bs = sint (word_of_int (le_unsigned bs) :: 32 word)"

text \<open>The pool's data invariant: the running total is the number of buffered bytes.\<close>

definition pool_inv :: "BufferPool \<Rightarrow> bool" where
  "pool_inv pool \<longleftrightarrow> totalByteLength pool = int (length (concat (buffers pool)))"

section \<open>Strings and numbers of the platform\<close>

text \<open>
  A JavaScript string is modelled by a HOL \<open>string\<close>, one \<open>char\<close> per code unit below
  256. \<open>Number\<close> values that the modelled code produces are integers or \<open>NaN\<close>.
\<close>

datatype number = Num int | NaN

definition startsWith :: "string \<Rightarrow> string \<Rightarrow> bool" where
  "startsWith s t \<longleftrightarrow> take (length t) s = t"

definition endsWith :: "string \<Rightarrow> string \<Rightarrow> bool" where
  "endsWith s t \<longleftrightarrow> length t \<le> length s \<and> drop (length s - length t) s = t"

text \<open>\<open>s.split(c)\<close> for a one-character separator.\<close>

fun split :: "char \<Rightarrow> string \<Rightarrow> string list" where
  "split c [] = [[]]"
| "split c (x # xs) =
     (if x = c then [] # split c xs
      else (case split c xs of [] \<Rightarrow> [[x]] | w # ws \<Rightarrow> (x # w) # ws))"

text \<open>\<open>s.substring(start, end)\<close>: both indices are clamped to the string and swapped when
  out of order.\<close>

definition substring :: "string \<Rightarrow> int \<Rightarrow> int \<Rightarrow> string" where
  "substring s start end' =
     (let len = int (length s);
          a = min (max start 0) len;
          b = min (max end' 0) len;
          from = min a b;
          to = max a b
      in take (nat (to - from)) (drop (nat from) s))"

text \<open>\<open>toLowerCase\<close> on code units below 256: the letters \<open>A\<close> to \<open>Z\<close> and the
  capital letters of Latin-1 (\<open>0xC0\<close> to \<open>0xDE\<close> without the multiplication sign
  \<open>0xD7\<close>) move up by 32; every other code unit maps to itself.\<close>

definition toLowerCase_char :: "char \<Rightarrow> char" where
  "toLowerCase_char c =
     (let n = (of_char c :: nat)
      in if (65 \<le> n \<and> n \<le> 90) \<or> (192 \<le> n \<and> n \<le> 222 \<and> n \<noteq> 215)
         then char_of (n + 32) else c)"

definition toLowerCase :: "string \<Rightarrow> string" where
  "toLowerCase s = map toLowerCase_char s"

text \<open>
  \<open>Number.parseInt(s, 10)\<close>: leading white space is skipped, an optional sign is read,
  then the longest run of decimal digits; with no digit the result is \<open>NaN\<close>. (The digits
  are read as an exact integer; a port printed by \<open>URL\<close> has at most five of them.)
\<close>

definition isWhiteSpace :: "char \<Rightarrow> bool" where
  "isWhiteSpace c \<longleftrightarrow> (of_char c :: nat) \<in> {9, 10, 11, 12, 13, 32, 160}"

definition isDigit :: "char \<Rightarrow> bool" where
  "isDigit c \<longleftrightarrow> 48 \<le> (of_char c :: nat) \<and> (of_char c :: nat) \<le> 57"

definition digits_value :: "string \<Rightarrow> int" where
  "digits_value ds = foldl (\<lambda>acc d. acc * 10 + (int (of_char d) - 48)) 0 ds"

definition parseInt :: "string \<Rightarrow> number" where
  "parseInt s =
     (let t = dropWhile isWhiteSpace s;
          (neg, u) = (case t of
                        c # r \<Rightarrow> if c = CHR ''-'' then (True, r)
                                 else if c = CHR ''+'' then (False, r) else (False, t)
                      | [] \<Rightarrow> (False, t));
          ds = takeWhile isDigit u
      in if ds = [] then NaN
         else Num (if neg then - digits_value ds else digits_value ds))"

section \<open>Network endpoints (\<open>HostAddress\<close>)\<close>

text \<open>
  The constructor calls two functions of the platform, which are parameters of the model:
  \<open>new URL(s)\<close>, of which it reads \<open>hostname\<close> and \<open>port\<close> (\<open>None\<close> when the
  constructor throws), and \<open>decodeURIComponent\<close> (\<open>None\<close> when it throws a
  \<open>URIError\<close>).
\<close>

record URL =
  hostname :: string
  url_port :: string

record platform =
  URL_new :: "string \<Rightarrow> URL option"
  decodeURIComponent :: "string \<Rightarrow> string option"

record HostAddress =
  host :: "string option"
  port :: "number option"
  socketPath :: "string option"
  isIPv6 :: bool

text \<open>The field initialisers of the class.\<close>

definition HostAddress_init :: HostAddress where
  "HostAddress_init = \<lparr>host = None, port = None, socketPath = None, isIPv6 = False\<rparr>"

definition URIError_malformed :: error where
  "URIError_malformed = mk_error URIError ''URI malformed''"

text \<open>
  \<open>new HostAddress(hostString)\<close>. \<open>url.port\<close> is always a string, so the branch
  \<open>typeof port === 'number'\<close> is never taken. The error raised for an unparsable URL
  carries the platform's error as its \<open>cause\<close>, which the model does not keep.
\<close>

definition HostAddress_new :: "platform \<Rightarrow> string \<Rightarrow> error + HostAddress" where
  "HostAddress_new pf hostString =
     (let escapedHost = join ''%20'' (split CHR '' '' hostString) in
      if endsWith escapedHost ''.sock'' then
        (case decodeURIComponent pf escapedHost of
           None \<Rightarrow> Inl URIError_malformed
         | Some path \<Rightarrow> Inr (HostAddress_init\<lparr>socketPath := Some path\<rparr>))
      else
        (let urlString = ''iLoveJS://'' @ escapedHost in
         case URL_new pf urlString of
           None \<Rightarrow>
             Inl (mk_error MongoRuntimeError (''Unable to parse '' @ escapedHost @ '' with URL''))
         | Some url \<Rightarrow>
             (case decodeURIComponent pf (hostname url) of
                None \<Rightarrow> Inl URIError_malformed
              | Some decoded \<Rightarrow>
                  (let normalized = toLowerCase decoded;
                       bracketed = startsWith normalized ''['' \<and> endsWith normalized '']'';
                       this1 = HostAddress_init\<lparr>isIPv6 := bracketed\<rparr>;
                       normalized' =
                         (if bracketed
                          then substring normalized 1 (int (length (hostname url)) - 1)
                          else normalized);
                       this2 = this1\<lparr>host := Some (toLowerCase normalized')\<rparr>;
                       this3 =
                         (if url_port url \<noteq> ''''
                          then this2\<lparr>port := Some (parseInt (url_port url))\<rparr>
                          else this2\<lparr>port := Some (Num 27017)\<rparr>)
                   in if port this3 = Some (Num 0)
                      then Inl (mk_error MongoParseError ''Invalid port (zero) with hostname'')
                      else Inr this3))))"

text \<open>
  A platform instance for plain inputs, used to instantiate the theorems: its \<open>URL\<close>
  accepts \<open>scheme://host\<close> and \<open>scheme://host:port\<close> where the host consists of ASCII
  letters, digits, dots and hyphens and the port is a decimal number up to 65535 without
  leading zeros, and declines everything else; its \<open>decodeURIComponent\<close> accepts the
  strings without a percent sign, which decode to themselves. On the inputs they accept
  they answer as Node does.
\<close>

definition isPlainHostChar :: "char \<Rightarrow> bool" where
  "isPlainHostChar c \<longleftrightarrow>
     (let n = (of_char c :: nat)
      in (48 \<le> n \<and> n \<le> 57) \<or> (65 \<le> n \<and> n \<le> 90) \<or> (97 \<le> n \<and> n \<le> 122)
         \<or> n = 45 \<or> n = 46)"

definition plain_URL_new :: "string \<Rightarrow> URL option" where
  "plain_URL_new s =
     (if \<not> startsWith s ''iLoveJS://'' then None
      else
        (let authority = drop 10 s;
             h = takeWhile (\<lambda>c. c \<noteq> CHR '':'') authority;
             rest = dropWhile (\<lambda>c. c \<noteq> CHR '':'') authority;
             p = drop 1 rest
         in if h = [] \<or> \<not> list_all isPlainHostChar h then None
            else if rest = [] then Some \<lparr>hostname = h, url_port = ''''\<rparr>
            else if p = [] \<or> \<not> list_all isDigit p \<or> (length p > 1 \<and> hd p = CHR ''0'')
                    \<or> digits_value p > 65535
            then None
            else Some \<lparr>hostname = h, url_port = p\<rparr>))"

definition plain_decodeURIComponent :: "string \<Rightarrow> string option" where
  "plain_decodeURIComponent s = (if CHR ''%'' \<in> set s then None else Some s)"

definition plain_platform :: platform where
  "plain_platform =
     \<lparr>URL_new = plain_URL_new, decodeURIComponent = plain_decodeURIComponent\<rparr>"

section \<open>Execution pipeline: data\<close>

text \<open>
  Modelled from the spec: the collaborators of the pipeline (topology, server, session,
  operation, client, read preference, selectors), whose files are not among the sources.
  Each type below holds exactly the properties that the pipeline reads or writes.
  \<open>supportsRetryableWrites\<close> is translated from the utilities.
\<close>

datatype Aspect =
    READ_OPERATION
  | WRITE_OPERATION
  | RETRYABLE
  | CURSOR_CREATING
  | MUST_SELECT_SAME_SERVER

datatype ReadPreference = primary | primaryPreferred | secondary | secondaryPreferred | nearest

fun mode :: "ReadPreference \<Rightarrow> string" where
  "mode primary = ''primary''"
| "mode primaryPreferred = ''primaryPreferred''"
| "mode secondary = ''secondary''"
| "mode secondaryPreferred = ''secondaryPreferred''"
| "mode nearest = ''nearest''"

datatype ServerType =
    Unknown | Standalone | Mongos | PossiblePrimary | RSPrimary | RSSecondary
  | RSArbiter | RSOther | RSGhost | LoadBalancer

record ServerDescription =
  address :: string
  logicalSessionTimeoutMinutes :: "int option"
  sd_type :: ServerType

record Server =
  loadBalanced :: bool
  description :: ServerDescription

text \<open>\<open>supportsRetryableWrites(server)\<close>, from the utilities.\<close>

definition supportsRetryableWrites :: "Server option \<Rightarrow> bool" where
  "supportsRetryableWrites server =
     (case server of
        None \<Rightarrow> False
      | Some sv \<Rightarrow>
          if loadBalanced sv then True
          else if logicalSessionTimeoutMinutes (description sv) \<noteq> None
                  \<and> sd_type (description sv) \<noteq> Standalone
          then True
          else False)"

text \<open>The three kinds of selector \<open>withServer\<close> builds; a session is referred to by its
  address in the store of sessions.\<close>

datatype ServerSelector =
    sameServerSelector "ServerDescription option"
  | secondaryWritableServerSelector int "ReadPreference option"
  | readPreferenceSelector "ReadPreference option"

record Topology =
  shouldCheckForSessionSupport :: bool
  hasSessionSupport :: bool
  supportsSnapshotReads :: bool
  commonWireVersion :: int
  retryReads :: bool
  retryWrites :: bool

text \<open>A session: \<open>owner\<close> is the symbol that tags an implicit session (symbols are
  numbered), \<open>inTransaction\<close> the answer of \<open>inTransaction()\<close>, \<open>isCommitted\<close> that of
  \<open>transaction.isCommitted\<close>.\<close>

record ClientSession =
  owner :: "nat option"
  explicit :: bool
  hasEnded :: bool
  snapshotEnabled :: bool
  inTransaction :: bool
  isPinned :: bool
  isCommitted :: bool
  txnNumber :: int

record Operation =
  op_session :: "nat option"
  options_session :: "nat option"
  options_willRetryWrite :: bool
  aspects :: "Aspect set"
  canRetryRead :: bool
  canRetryWrite :: bool
  op_readPreference :: "ReadPreference option"
  trySecondaryWrite :: bool
  bypassPinningCheck :: bool
  op_server :: "Server option"

definition hasAspect :: "Operation \<Rightarrow> Aspect \<Rightarrow> bool" where
  "hasAspect operation a \<longleftrightarrow> a \<in> aspects operation"

record MongoClient =
  topology :: "Topology option"
  hasBeenClosed :: bool
  skipPingOnConnect :: bool

type_synonym Document = string

text \<open>The pipeline's context object; a field that has not been assigned is \<open>None\<close>
  (\<open>False\<close> for the flag, which is only tested for truth).\<close>

record Context =
  ctx_session :: "nat option"
  ctx_owner :: "nat option"
  ctx_readPreference :: "ReadPreference option"
  ctx_inTransaction :: bool
  ctx_server :: "Server option"
  ctx_selector :: "ServerSelector option"
  ctx_result :: "Document option"

definition new_Context :: Context where
  "new_Context =
     \<lparr>ctx_session = None, ctx_owner = None, ctx_readPreference = None,
      ctx_inTransaction = False, ctx_server = None, ctx_selector = None,
      ctx_result = None\<rparr>"

text \<open>Every call the pipeline makes on a collaborator is logged, in order.\<close>

datatype event =
    Connect
  | SelectServer "ServerSelector option" "nat option"
  | StartSession nat nat
  | Unpin nat bool
  | IncrementTransactionNumber nat
  | Execute "Server option" "nat option" "error + Document"
  | EndSession nat

fun is_SelectServer :: "event \<Rightarrow> bool" where
  "is_SelectServer (SelectServer _ _) = True"
| "is_SelectServer _ = False"

fun is_Execute :: "event \<Rightarrow> bool" where
  "is_Execute (Execute _ _ _) = True"
| "is_Execute _ = False"

fun is_IncrementTransactionNumber :: "event \<Rightarrow> bool" where
  "is_IncrementTransactionNumber (IncrementTransactionNumber _) = True"
| "is_IncrementTransactionNumber _ = False"

fun is_EndSession :: "event \<Rightarrow> bool" where
  "is_EndSession (EndSession _) = True"
| "is_EndSession _ = False"

text \<open>
  The state a run works on: the client, the store of sessions with its next free
  address, the next unused symbol, the operation, the context and the log.
\<close>

record world =
  client :: MongoClient
  sessions :: "nat \<Rightarrow> ClientSession"
  next_session :: nat
  next_symbol :: nat
  operation :: Operation
  ctx :: Context
  trace :: "event list"

text \<open>
  What the collaborators answer during a run: the outcome of \<open>client.connect()\<close> (the
  topology the client has afterwards), of the \<open>i\<close>-th server selection, of the \<open>i\<close>-th
  \<open>operation.executeAsync\<close>, of \<open>session.endSession()\<close>, and the two error
  classifiers of the error module.
\<close>

record env =
  connect_outcome :: "error + Topology option"
  select_outcome :: "nat \<Rightarrow> error + Server"
  execute_outcome :: "nat \<Rightarrow> error + Document"
  endSession_outcome :: "error option"
  isRetryableWriteError :: "error \<Rightarrow> bool"
  isRetryableReadError :: "error \<Rightarrow> bool"

type_synonym 'a outcome = "(error + 'a) \<times> world"
type_synonym step = "world \<Rightarrow> unit outcome"
type_synonym middleware = "step \<Rightarrow> step"

definition log :: "event \<Rightarrow> world \<Rightarrow> world" where
  "log ev w = w\<lparr>trace := trace w @ [ev]\<rparr>"

text \<open>Modelled from the spec: the tests the pipeline makes on an error, its class and
  its labels, and the label that marks a failure before which nothing was written.\<close>

definition instanceof_MongoError :: "error \<Rightarrow> bool" where
  "instanceof_MongoError e \<longleftrightarrow> kind e \<notin> {TypeError, RangeError, URIError, OtherError}"

definition instanceof_MongoNetworkError :: "error \<Rightarrow> bool" where
  "instanceof_MongoNetworkError e \<longleftrightarrow> kind e = MongoNetworkError"

definition hasErrorLabel :: "error \<Rightarrow> string \<Rightarrow> bool" where
  "hasErrorLabel e l \<longleftrightarrow> l \<in> set (labels e)"

definition NoWritesPerformed :: string where
  "NoWritesPerformed = ''NoWritesPerformed''"

text \<open>Modelled from the spec: the fixed MMAPv1 error code,
  \<open>MONGODB_ERROR_CODES.IllegalOperation\<close> of the error module. Its value is the one the
  prose test of retryable writes injects as the MMAP error code.\<close>

definition MMAPv1_RETRY_WRITES_ERROR_CODE :: int where
  "MMAPv1_RETRY_WRITES_ERROR_CODE = 20"

definition MMAPv1_RETRY_WRITES_ERROR_MESSAGE :: string where
  "MMAPv1_RETRY_WRITES_ERROR_MESSAGE =
     ''This MongoDB deployment does not support retryable writes. Please add retryWrites=false to your connection string.''"

section \<open>Execution pipeline: collaborator calls\<close>

text \<open>Modelled from the spec: \<open>topology.selectServerAsync(selector, {session})\<close>,
  which answers with a server or fails; the \<open>i\<close>-th call of a run gets the \<open>i\<close>-th
  answer of the collaborators.\<close>

definition selectServerAsync ::
  "env \<Rightarrow> ServerSelector option \<Rightarrow> nat option \<Rightarrow> world \<Rightarrow> Server outcome" where
  "selectServerAsync E selector session w =
     (select_outcome E (length (filter is_SelectServer (trace w))),
      log (SelectServer selector session) w)"

text \<open>Modelled from the spec: \<open>client.startSession({owner, explicit: false})\<close>, which
  is not among the sources: it creates an implicit session tagged with the ownership
  token; the new session has not ended, is in no transaction and is not pinned.\<close>

definition startSession :: "nat \<Rightarrow> world \<Rightarrow> nat \<times> world" where
  "startSession ownerSym w =
     (let sid = next_session w;
          s = \<lparr>owner = Some ownerSym, explicit = False, hasEnded = False,
               snapshotEnabled = False, inTransaction = False, isPinned = False,
               isCommitted = False, txnNumber = 0\<rparr>
      in (sid, log (StartSession sid ownerSym)
                 (w\<lparr>sessions := (sessions w)(sid := s), next_session := Suc sid\<rparr>)))"

text \<open>Modelled from the spec: \<open>session.unpin(options)\<close>, which is not among the
  sources: the session is no longer pinned.\<close>

definition unpin :: "nat \<Rightarrow> bool \<Rightarrow> world \<Rightarrow> world" where
  "unpin sid force w =
     log (Unpin sid force)
       (w\<lparr>sessions := (sessions w)(sid := (sessions w sid)\<lparr>isPinned := False\<rparr>)\<rparr>)"

text \<open>Modelled from the spec: \<open>session.incrementTransactionNumber()\<close>, which is not
  among the sources: it advances the session's transaction number by one.\<close>

definition incrementTransactionNumber :: "nat \<Rightarrow> world \<Rightarrow> world" where
  "incrementTransactionNumber sid w =
     log (IncrementTransactionNumber sid)
       (w\<lparr>sessions := (sessions w)(sid := (sessions w sid)\<lparr>txnNumber := txnNumber (sessions w sid) + 1\<rparr>)\<rparr>)"

text \<open>Modelled from the spec: \<open>session.endSession()\<close>, which is not among the
  sources: it may fail; when it does not, the session has ended.\<close>

definition endSession :: "env \<Rightarrow> nat \<Rightarrow> world \<Rightarrow> unit outcome" where
  "endSession E sid w =
     (case endSession_outcome E of
        Some e \<Rightarrow> (Inl e, log (EndSession sid) w)
      | None \<Rightarrow>
          (Inr (), log (EndSession sid)
                     (w\<lparr>sessions := (sessions w)(sid := (sessions w sid)\<lparr>hasEnded := True\<rparr>)\<rparr>)))"

text \<open>\<open>Symbol()\<close>: a value different from every symbol made before.\<close>

definition Symbol :: "world \<Rightarrow> nat \<times> world" where
  "Symbol w = (next_symbol w, w\<lparr>next_symbol := Suc (next_symbol w)\<rparr>)"

section \<open>Execution pipeline: stages\<close>

text \<open>
  A stage is a function of the continuation \<open>next\<close> and the state; it returns the
  outcome (\<open>Inl\<close> the error the promise rejects with) and the state it leaves. The
  writes to the console in \<open>withRetryability\<close> are not modelled.
\<close>

text \<open>\<open>withConnectedClient\<close>. \<open>client.connect()\<close> is a call on a collaborator; the
  flag \<open>skipPingOnConnect\<close> is set around it and removed in the \<open>finally\<close> block.\<close>

definition withConnectedClient :: "env \<Rightarrow> middleware" where
  "withConnectedClient E next w =
     (if topology (client w) = None then
        (if hasBeenClosed (client w) then
           (Inl (mk_error MongoNotConnectedError
                   ''Client must be connected before running operations''), w)
         else
           (let w1 = log Connect (w\<lparr>client := (client w)\<lparr>skipPingOnConnect := True\<rparr>\<rparr>) in
            case connect_outcome E of
              Inl e \<Rightarrow> (Inl e, w1\<lparr>client := (client w1)\<lparr>skipPingOnConnect := False\<rparr>\<rparr>)
            | Inr t \<Rightarrow>
                next (w1\<lparr>client := (client w1)\<lparr>topology := t, skipPingOnConnect := False\<rparr>\<rparr>)))
      else next w)"

text \<open>Reading a property of \<open>undefined\<close>.\<close>

definition undefined_TypeError :: error where
  "undefined_TypeError = mk_error TypeError ''Cannot read properties of undefined''"

text \<open>The part of \<open>withSession\<close> between the session-support check and the read
  preference: it settles the local variables \<open>session\<close> and \<open>owner\<close>.\<close>

definition bindSession ::
  "Topology \<Rightarrow> world \<Rightarrow> (error + nat option \<times> nat option) \<times> world" where
  "bindSession tp w =
     (let session = op_session (operation w) in
      if hasSessionSupport tp then
        (case session of
           None \<Rightarrow>
             (let (ownerSym, w1) = Symbol w;
                  (sid, w2) = startSession ownerSym w1
              in (Inr (Some sid, Some ownerSym), w2))
         | Some sid \<Rightarrow>
             if hasEnded (sessions w sid) then
               (Inl (mk_error MongoExpiredSessionError
                       ''Use of expired sessions is not permitted''), w)
             else if snapshotEnabled (sessions w sid) \<and> \<not> supportsSnapshotReads tp then
               (Inl (mk_error MongoCompatibilityError
                       ''Snapshot reads require MongoDB 5.0 or later''), w)
             else (Inr (session, None), w))
      else
        (case session of
           Some sid \<Rightarrow>
             if explicit (sessions w sid) then
               (Inl (mk_error MongoCompatibilityError
                       ''Current topology does not support sessions''), w)
             else
               (Inr (None, None),
                w\<lparr>operation := (operation w)\<lparr>options_session := None, op_session := None\<rparr>\<rparr>)
         | None \<Rightarrow> (Inr (None, None), w)))"

text \<open>
  \<open>withSession\<close>, the rest: \<open>withSessionBound\<close> is the function from the read
  preference on, with the local variables \<open>session\<close> and \<open>owner\<close> settled; its last
  step is the \<open>finally\<close> block, where a rejection of \<open>endSession()\<close> is caught and
  dropped.
\<close>

definition withSessionBound :: "env \<Rightarrow> nat option \<Rightarrow> nat option \<Rightarrow> middleware" where
  "withSessionBound E session ownerSym next w =
     (let readPreference =
            (case op_readPreference (operation w) of None \<Rightarrow> primary | Some rp \<Rightarrow> rp);
          inTransaction' =
            (case session of None \<Rightarrow> False | Some sid \<Rightarrow> inTransaction (sessions w sid))
      in if inTransaction' \<and> readPreference \<noteq> primary then
           (Inl (mk_error MongoTransactionError
                   (''Read preference in a transaction must be primary, not: ''
                      @ mode readPreference)), w)
         else
           (let w2 =
                  (case session of
                     None \<Rightarrow> w
                   | Some sid \<Rightarrow>
                       if isPinned (sessions w sid) \<and> isCommitted (sessions w sid)
                          \<and> \<not> bypassPinningCheck (operation w)
                       then unpin sid False w else w);
                w3 = w2\<lparr>ctx := (ctx w2)\<lparr>ctx_session := session,
                                         ctx_owner := ownerSym,
                                         ctx_readPreference := Some readPreference,
                                         ctx_inTransaction := inTransaction'\<rparr>\<rparr>
            in case next w3 of
                 (r, w4) \<Rightarrow>
                   (case session of
                      None \<Rightarrow> (r, w4)
                    | Some sid \<Rightarrow>
                        if owner (sessions w4 sid) \<noteq> None \<and> owner (sessions w4 sid) = ownerSym
                        then (r, snd (endSession E sid w4))
                        else (r, w4))))"

definition withSession :: "env \<Rightarrow> middleware" where
  "withSession E next w =
     (case topology (client w) of
        None \<Rightarrow> (Inl undefined_TypeError, w)
      | Some tp \<Rightarrow>
          (case (if shouldCheckForSessionSupport tp
                 then (case selectServerAsync E
                              (Some (readPreferenceSelector (Some primaryPreferred))) None w of
                         (Inl e, w0) \<Rightarrow> (Inl e, w0)
                       | (Inr _, w0) \<Rightarrow> (Inr (), w0))
                 else (Inr (), w)) of
             (Inl e, w0) \<Rightarrow> (Inl e, w0)
           | (Inr _, w0) \<Rightarrow>
               (case bindSession tp w0 of
                  (Inl e, w1) \<Rightarrow> (Inl e, w1)
                | (Inr (session, ownerSym), w1) \<Rightarrow>
                    withSessionBound E session ownerSym next w1)))"

definition withServer :: "env \<Rightarrow> middleware" where
  "withServer E next w =
     (let readPreference = ctx_readPreference (ctx w);
          session = ctx_session (ctx w);
          selector =
            (if hasAspect (operation w) MUST_SELECT_SAME_SERVER
             then Some (sameServerSelector (map_option description (op_server (operation w))))
             else if trySecondaryWrite (operation w)
             then (case topology (client w) of
                     None \<Rightarrow> None
                   | Some tp \<Rightarrow>
                       Some (secondaryWritableServerSelector (commonWireVersion tp) readPreference))
             else Some (readPreferenceSelector readPreference))
      in case topology (client w) of
           None \<Rightarrow> (Inl undefined_TypeError, w)
         | Some tp \<Rightarrow>
             (case selectServerAsync E selector session w of
                (Inl e, w1) \<Rightarrow> (Inl e, w1)
              | (Inr server, w1) \<Rightarrow>
                  next (w1\<lparr>ctx := (ctx w1)\<lparr>ctx_server := Some server,
                                           ctx_selector := selector\<rparr>\<rparr>)))"

text \<open>
  \<open>withRetryability\<close> in two parts. \<open>retryOnError\<close> is the body of
  \<open>if (willRetry && operationError instanceof MongoError) { ... }\<close> in the handler of
  the first attempt's error: the checks on the error, the new server selection and the
  second call of \<open>next\<close> with its own handler. When the second call of \<open>next\<close>
  returns normally, nothing returns from the function: control leaves the inner \<open>try\<close>
  and the \<open>if\<close> block and reaches the \<open>throw operationError\<close> that ends the outer
  handler.
\<close>

definition retryOnError ::
  "env \<Rightarrow> step \<Rightarrow> nat \<Rightarrow> ServerSelector option \<Rightarrow> error \<Rightarrow> step" where
  "retryOnError E next sid selector operationError w =
     (let isWriteOperation = hasAspect (operation w) WRITE_OPERATION;
          isReadOperation = hasAspect (operation w) READ_OPERATION
      in if isWriteOperation \<and> code operationError = Some MMAPv1_RETRY_WRITES_ERROR_CODE then
           (Inl (Err MongoServerError MMAPv1_RETRY_WRITES_ERROR_MESSAGE None []
                   (Some operationError)), w)
         else if isWriteOperation \<and> \<not> isRetryableWriteError E operationError then
           (Inl operationError, w)
         else if isReadOperation \<and> \<not> isRetryableReadError E operationError then
           (Inl operationError, w)
         else
           (let w3 =
                  (if instanceof_MongoNetworkError operationError
                      \<and> isPinned (sessions w sid)
                      \<and> \<not> inTransaction (sessions w sid)
                      \<and> hasAspect (operation w) CURSOR_CREATING
                   then unpin sid True w else w)
            in case selectServerAsync E selector (Some sid) w3 of
                 (Inl e, w4) \<Rightarrow> (Inl e, w4)
               | (Inr server, w4) \<Rightarrow>
                   if isWriteOperation \<and> \<not> supportsRetryableWrites (Some server) then
                     (Inl (mk_error MongoUnexpectedServerResponseError
                             ''Selected server does not support retryable writes''), w4)
                   else
                     (case next w4 of
                        (Inl retryError, w5) \<Rightarrow>
                          if instanceof_MongoError retryError
                             \<and> hasErrorLabel retryError NoWritesPerformed
                          then (Inl operationError, w5)
                          else (Inl retryError, w5)
                      | (Inr u, w5) \<Rightarrow> (Inl operationError, w5))))"

definition withRetryability :: "env \<Rightarrow> middleware" where
  "withRetryability E next w =
     (let session = ctx_session (ctx w);
          server = ctx_server (ctx w);
          inTransaction' = ctx_inTransaction (ctx w);
          selector = ctx_selector (ctx w)
      in case topology (client w) of
           None \<Rightarrow>
             (Inl (mk_error MongoRuntimeError
                     ''client.connect did not create a topology but also did not throw''), w)
         | Some tp \<Rightarrow>
             (case session of
                None \<Rightarrow> next w
              | Some sid \<Rightarrow>
                  if \<not> hasAspect (operation w) RETRYABLE then next w
                  else
                    (let willRetryRead =
                           (retryReads tp \<and> \<not> inTransaction' \<and> canRetryRead (operation w));
                         willRetryWrite =
                           (retryWrites tp \<and> \<not> inTransaction' \<and> supportsRetryableWrites server
                              \<and> canRetryWrite (operation w));
                         hasReadAspect = hasAspect (operation w) READ_OPERATION;
                         hasWriteAspect = hasAspect (operation w) WRITE_OPERATION;
                         willRetry =
                           ((hasReadAspect \<and> willRetryRead) \<or> (hasWriteAspect \<and> willRetryWrite));
                         w1 =
                           (if hasWriteAspect \<and> willRetryWrite
                            then incrementTransactionNumber sid
                                   (w\<lparr>operation := (operation w)\<lparr>options_willRetryWrite := True\<rparr>\<rparr>)
                            else w)
                     in case next w1 of
                          (Inr u, w2) \<Rightarrow> (Inr u, w2)
                        | (Inl operationError, w2) \<Rightarrow>
                            if willRetry \<and> instanceof_MongoError operationError
                            then retryOnError E next sid selector operationError w2
                            else (Inl operationError, w2))))"

text \<open>\<open>runCommand\<close>. \<open>operation.executeAsync(server, session)\<close> is a call on a
  collaborator: the \<open>i\<close>-th call of a run gets the \<open>i\<close>-th answer.\<close>

definition runCommand :: "env \<Rightarrow> step" where
  "runCommand E w =
     (let server = ctx_server (ctx w);
          session = ctx_session (ctx w);
          out = execute_outcome E (length (filter is_Execute (trace w)));
          w1 = log (Execute server session out) w
      in case out of
           Inl e \<Rightarrow> (Inl e, w1)
         | Inr result \<Rightarrow> (Inr (), w1\<lparr>ctx := (ctx w1)\<lparr>ctx_result := Some result\<rparr>\<rparr>))"

text \<open>
  \<open>pipe(...middleware)\<close> returns \<open>(context, next) => dispatch(0)\<close>, where
  \<open>dispatch(i)\<close> calls \<open>middleware[i]\<close> with \<open>dispatch(i + 1)\<close> as its continuation;
  at the end of the array it calls \<open>next\<close>, and resolves when there is none. The
  recursion below runs over the part of the array from index \<open>i\<close> on.
\<close>

fun dispatch :: "middleware list \<Rightarrow> middleware option \<Rightarrow> step" where
  "dispatch [] None w = (Inr (), w)"
| "dispatch [] (Some fn) w = fn (\<lambda>w'. (Inr (), w')) w"
| "dispatch (fn # rest) nxt w = fn (dispatch rest nxt) w"

definition pipe :: "middleware list \<Rightarrow> middleware option \<Rightarrow> step" where
  "pipe mws nxt = dispatch mws nxt"

definition execute :: "env \<Rightarrow> step" where
  "execute E =
     pipe [withConnectedClient E, withSession E, withServer E, withRetryability E,
           (\<lambda>next. runCommand E)] None"

text \<open>\<open>executeOperationAsync(client, operation)\<close>, for an operation that is an
  \<open>AbstractOperation\<close>: a fresh context, the pipeline, then \<open>context.result\<close>.\<close>

definition executeOperationAsync :: "env \<Rightarrow> world \<Rightarrow> Document option outcome" where
  "executeOperationAsync E w =
     (case execute E (w\<lparr>ctx := new_Context\<rparr>) of
        (Inl e, w') \<Rightarrow> (Inl e, w')
      | (Inr _, w') \<Rightarrow> (Inr (ctx_result (ctx w')), w'))"

section \<open>Execution pipeline: vocabulary for its properties\<close>

text \<open>The events of the retry stage and of the operation: the attempts, and the
  advances of the transaction number.\<close>

definition inner_event :: "event \<Rightarrow> bool" where
  "inner_event e \<longleftrightarrow> is_Execute e \<or> is_IncrementTransactionNumber e"

fun is_session_event :: "event \<Rightarrow> bool" where
  "is_session_event (StartSession _ _) = True"
| "is_session_event (EndSession _) = True"
| "is_session_event _ = False"

text \<open>The events a run adds to the log.\<close>

definition new_events :: "world \<Rightarrow> world \<Rightarrow> event list" where
  "new_events w w' = drop (length (trace w)) (trace w')"

text \<open>\<open>same_setup w w'\<close>: between \<open>w\<close> and \<open>w'\<close> nothing changed that the retry stage
  decides on: the client, the operation's capabilities, and the context apart from its
  result. \<open>sessions_kept w w'\<close>: every session has kept its owner and has ended in
  \<open>w'\<close> exactly if it had in \<open>w\<close>.\<close>

definition same_setup :: "world \<Rightarrow> world \<Rightarrow> bool" where
  "same_setup w w' \<longleftrightarrow>
     client w' = client w
   \<and> aspects (operation w') = aspects (operation w)
   \<and> canRetryWrite (operation w') = canRetryWrite (operation w)
   \<and> canRetryRead (operation w') = canRetryRead (operation w)
   \<and> op_session (operation w') = op_session (operation w)
   \<and> ctx_session (ctx w') = ctx_session (ctx w)
   \<and> ctx_owner (ctx w') = ctx_owner (ctx w)
   \<and> ctx_inTransaction (ctx w') = ctx_inTransaction (ctx w)
   \<and> ctx_server (ctx w') = ctx_server (ctx w)
   \<and> ctx_selector (ctx w') = ctx_selector (ctx w)"

definition sessions_kept :: "world \<Rightarrow> world \<Rightarrow> bool" where
  "sessions_kept w w' \<longleftrightarrow>
     (\<forall>s. owner (sessions w' s) = owner (sessions w s))
   \<and> (\<forall>s. hasEnded (sessions w' s) = hasEnded (sessions w s))"

text \<open>\<open>quiet new\<close>: no session is started or ended in \<open>new\<close>.\<close>

definition quiet :: "event list \<Rightarrow> bool" where
  "quiet new \<longleftrightarrow> list_all (\<lambda>e. \<not> is_session_event e) new"

text \<open>The advance of the transaction number that \<open>withRetryability\<close> makes when it is
  entered in state \<open>w\<close>: one, for a retryable write operation with a session for which
  \<open>willRetryWrite\<close> holds, and none otherwise.\<close>

definition increments :: "world \<Rightarrow> event list" where
  "increments w =
     (case topology (client w) of
        None \<Rightarrow> []
      | Some tp \<Rightarrow>
          (case ctx_session (ctx w) of
             None \<Rightarrow> []
           | Some sid \<Rightarrow>
               if hasAspect (operation w) RETRYABLE \<and> hasAspect (operation w) WRITE_OPERATION
                  \<and> retryWrites tp \<and> \<not> ctx_inTransaction (ctx w)
                  \<and> supportsRetryableWrites (ctx_server (ctx w))
                  \<and> canRetryWrite (operation w)
               then [IncrementTransactionNumber sid] else []))"

text \<open>How the handler of the second attempt turns that attempt's outcome \<open>out\<close> into
  the outcome \<open>r\<close> of the stage, \<open>e1\<close> being the first attempt's error.\<close>

definition second_outcome :: "error \<Rightarrow> error + Document \<Rightarrow> error + unit \<Rightarrow> world \<Rightarrow> bool" where
  "second_outcome e1 out r w' \<longleftrightarrow>
     (case out of
        Inr d \<Rightarrow> r = Inl e1 \<and> ctx_result (ctx w') = Some d
      | Inl e2 \<Rightarrow>
          r = Inl (if instanceof_MongoError e2 \<and> hasErrorLabel e2 NoWritesPerformed
                   then e1 else e2))"

text \<open>The shapes of the attempts of one run of the retry stage, with the stage's
  outcome \<open>r\<close>: a single attempt, or a failed attempt followed by a second one.\<close>

definition attempts :: "event list \<Rightarrow> error + unit \<Rightarrow> world \<Rightarrow> bool" where
  "attempts execs r w' \<longleftrightarrow>
     (\<exists>sv ss out. execs = [Execute sv ss out]
        \<and> (case out of Inr d \<Rightarrow> r = Inr () \<and> ctx_result (ctx w') = Some d
                      | Inl e \<Rightarrow> isl r))
   \<or> (\<exists>sv ss e1 sv' ss' out2.
         execs = [Execute sv ss (Inl e1), Execute sv' ss' out2]
       \<and> second_outcome e1 out2 r w')"

text \<open>The stages that \<open>withSession\<close> continues with.\<close>

definition inner :: "env \<Rightarrow> step" where
  "inner E = withServer E (withRetryability E (runCommand E))"

text \<open>
  \<open>retry_run w mid r w'\<close> sums up a run from \<open>w\<close> to \<open>w'\<close> with events \<open>mid\<close> and
  outcome \<open>r\<close>: either it failed before the retry stage, with no attempt, no advance of
  the transaction number and no server put in the context; or the retry stage was entered
  in some state \<open>w1\<close>, and \<open>mid\<close> holds the advance due in \<open>w1\<close> followed by the
  attempts.
\<close>

definition retry_run :: "world \<Rightarrow> event list \<Rightarrow> error + unit \<Rightarrow> world \<Rightarrow> bool" where
  "retry_run w mid r w' \<longleftrightarrow>
     (isl r \<and> filter inner_event mid = [] \<and> ctx_server (ctx w') = ctx_server (ctx w))
   \<or> (\<exists>w1 execs. filter inner_event mid = increments w1 @ execs
                  \<and> attempts execs r w' \<and> same_setup w1 w')"

text \<open>The call of \<open>endSession\<close> that the \<open>finally\<close> block of \<open>withSession\<close> makes for
  the local \<open>session\<close> and \<open>owner\<close>.\<close>

definition ends :: "nat option \<Rightarrow> nat option \<Rightarrow> world \<Rightarrow> event list" where
  "ends session ownerSym w =
     (case session of
        None \<Rightarrow> []
      | Some sid \<Rightarrow>
          if owner (sessions w sid) \<noteq> None \<and> owner (sessions w sid) = ownerSym
          then [EndSession sid] else [])"

text \<open>
  \<open>session_lifecycle w new w'\<close> sums up what a run from \<open>w\<close> to \<open>w'\<close> with events
  \<open>new\<close> does to sessions. With a session supplied on the operation, no session is
  started or ended and every session is kept as it was. Without one, either the same
  holds, or the run starts exactly one session and ends that session with its last event.
\<close>

definition session_lifecycle :: "world \<Rightarrow> event list \<Rightarrow> world \<Rightarrow> bool" where
  "session_lifecycle w new w' \<longleftrightarrow>
     (case op_session (operation w) of
        Some sid \<Rightarrow> quiet new \<and> sessions_kept w w'
      | None \<Rightarrow>
          (quiet new \<and> sessions_kept w w')
          \<or> (\<exists>pre mid sid ow. new = pre @ [StartSession sid ow] @ mid @ [EndSession sid]
                \<and> quiet pre \<and> quiet mid))"

text \<open>Two outcomes agree in what the caller can see of them: the result or error,
  and the context.\<close>

definition same_answer :: "unit outcome \<Rightarrow> unit outcome \<Rightarrow> bool" where
  "same_answer a b \<longleftrightarrow> fst a = fst b \<and> ctx (snd a) = ctx (snd b)"

section \<open>Execution pipeline: a concrete deployment\<close>

text \<open>
  A connected client on a replica set with sessions and retryable writes, an insert-like
  operation (a retryable write), and collaborators whose first \<open>executeAsync\<close> fails with
  a retryable error. The variants differ in the second attempt and in the session the
  operation brings along.
\<close>

definition example_topology :: Topology where
  "example_topology =
     \<lparr>shouldCheckForSessionSupport = False, hasSessionSupport = True,
      supportsSnapshotReads = True, commonWireVersion = 17, retryReads = True,
      retryWrites = True\<rparr>"

definition example_server :: Server where
  "example_server =
     \<lparr>loadBalanced = False,
      description = \<lparr>address = ''db0.example.com:27017'',
                     logicalSessionTimeoutMinutes = Some 30, sd_type = RSPrimary\<rparr>\<rparr>"

definition example_session :: ClientSession where
  "example_session =
     \<lparr>owner = None, explicit = True, hasEnded = False, snapshotEnabled = False,
      inTransaction = False, isPinned = False, isCommitted = False, txnNumber = 7\<rparr>"

definition example_operation :: Operation where
  "example_operation =
     \<lparr>op_session = None, options_session = None, options_willRetryWrite = False,
      aspects = {WRITE_OPERATION, RETRYABLE}, canRetryRead = False, canRetryWrite = True,
      op_readPreference = None, trySecondaryWrite = False, bypassPinningCheck = False,
      op_server = None\<rparr>"

definition example_world :: world where
  "example_world =
     \<lparr>client = \<lparr>topology = Some example_topology, hasBeenClosed = False,
                skipPingOnConnect = False\<rparr>,
      sessions = (\<lambda>_. example_session), next_session = 0, next_symbol = 0,
      operation = example_operation, ctx = new_Context, trace = []\<rparr>"

text \<open>The same, with the caller's explicit session at address 5 on the operation.\<close>

definition example_world_explicit :: world where
  "example_world_explicit =
     example_world\<lparr>operation := example_operation\<lparr>op_session := Some 5,
                                                   options_session := Some 5\<rparr>,
                   next_session := 6\<rparr>"

definition retryable_error :: error where
  "retryable_error =
     Err MongoServerError ''not primary'' (Some 10107) [''RetryableWriteError''] None"

definition no_writes_error :: error where
  "no_writes_error =
     Err MongoServerError ''socket closed'' (Some 6)
       [''RetryableWriteError'', ''NoWritesPerformed''] None"

text \<open>Collaborators: the second attempt succeeds; ending a session fails.\<close>

definition example_env :: env where
  "example_env =
     \<lparr>connect_outcome = Inr (Some example_topology),
      select_outcome = (\<lambda>_. Inr example_server),
      execute_outcome = (\<lambda>i. if i = 0 then Inl retryable_error else Inr ''{ok: 1}''),
      endSession_outcome = Some (mk_error MongoNetworkError ''connection closed''),
      isRetryableWriteError = (\<lambda>e. hasErrorLabel e ''RetryableWriteError''),
      isRetryableReadError = (\<lambda>_. False)\<rparr>"

text \<open>Collaborators: the second attempt fails too, and reports that nothing was
  written.\<close>

definition example_env_failing :: env where
  "example_env_failing =
     example_env\<lparr>execute_outcome :=
                    (\<lambda>i. if i = 0 then Inl retryable_error else Inl no_writes_error)\<rparr>"

section \<open>Properties of the state transition guard\<close>

lemma indexOf_nonneg: "x \<in> set xs \<Longrightarrow> 0 \<le> indexOf xs x"
  by (induction xs) (auto simp: Let_def)

lemma indexOf_neg_iff: "indexOf xs x < 0 \<longleftrightarrow> x \<notin> set xs"
  by (induction xs) (auto simp: Let_def)

text \<open>
  Claim C8. When the target's current state has an entry in the table: a requested state
  outside the entry's list raises a \<open>MongoRuntimeError\<close> whose message names the current
  state, the requested state and the legal list, and the target is left as it was; a
  requested state inside the list appends the notification
  \<open>(stateChanged, old, new)\<close> and sets the state to the new one.
\<close>

theorem stateTransition_guard:
  assumes "stateTable (s_state target) = Some legalStates"
  shows "(newState \<notin> set legalStates \<longrightarrow>
           makeStateMachine stateTable target newState =
             (Inl (Err MongoRuntimeError
                     (''illegal state transition from ['' @ s_state target @ ''] => [''
                        @ newState @ ''], allowed: ['' @ join '','' legalStates @ '']'')
                     None [] None),
              target))
       \<and> (newState \<in> set legalStates \<longrightarrow>
           makeStateMachine stateTable target newState =
             (Inr (), target\<lparr>s_state := newState,
                            emitted := emitted target @ [(''stateChanged'', s_state target, newState)]\<rparr>))"
  using assms
  by (simp add: makeStateMachine_def indexOf_neg_iff mk_error_def emit_def
        illegal_transition_message_def)

theorem stateTransition_guard_witness:
  "makeStateMachine [''A'' \<mapsto> [''B''], ''B'' \<mapsto> [''A'', ''C'']]
       \<lparr>s_state = ''A'', emitted = []\<rparr> ''C''
     = (Inl (Err MongoRuntimeError
              ''illegal state transition from [A] => [C], allowed: [B]'' None [] None),
        \<lparr>s_state = ''A'', emitted = []\<rparr>)
   \<and> makeStateMachine [''A'' \<mapsto> [''B''], ''B'' \<mapsto> [''A'', ''C'']]
       \<lparr>s_state = ''B'', emitted = []\<rparr> ''C''
     = (Inr (), \<lparr>s_state = ''C'', emitted = [(''stateChanged'', ''B'', ''C'')]\<rparr>)"
  using stateTransition_guard [of "[''A'' \<mapsto> [''B''], ''B'' \<mapsto> [''A'', ''C'']]"
          "\<lparr>s_state = ''A'', emitted = []\<rparr>" "[''B'']" "''C''"]
        stateTransition_guard [of "[''A'' \<mapsto> [''B''], ''B'' \<mapsto> [''A'', ''C'']]"
          "\<lparr>s_state = ''B'', emitted = []\<rparr>" "[''A'', ''C'']" "''C''"]
  by simp



section \<open>Properties of the byte buffer pool\<close>

lemma subarray_prefix:
  "0 \<le> n \<Longrightarrow> subarray buf 0 n = take (nat n) buf"
  by (auto simp: subarray_def Let_def min_def max_def)

lemma subarray_from_drop:
  "0 \<le> n \<Longrightarrow> subarray_from buf n = drop (nat n) buf"
  by (auto simp: subarray_from_def subarray_def Let_def min_def max_def)

lemma read_loop_correct:
  "\<lbrakk> pool_inv pool; int (length result) = sz; 0 \<le> bytesRead; bytesRead \<le> sz;
     sz - bytesRead \<le> totalByteLength pool \<rbrakk> \<Longrightarrow>
   \<exists>pool'. read_loop sz result bytesRead pool =
       (Inr (take (nat bytesRead) result @ take (nat (sz - bytesRead)) (concat (buffers pool))), pool')
     \<and> pool_inv pool'
     \<and> concat (buffers pool') = drop (nat (sz - bytesRead)) (concat (buffers pool))
     \<and> totalByteLength pool' = totalByteLength pool - (sz - bytesRead)"
proof (induction sz result bytesRead pool rule: read_loop.induct)
  case (1 sz result bytesRead pool)
  show ?case
  proof (cases "bytesRead < sz")
    case False
    with 1(2-) show ?thesis
      by (subst read_loop.simps) auto
  next
    case True
    show ?thesis
    proof (cases "buffers pool")
      case Nil
      with True 1(2-) show ?thesis by (simp add: pool_inv_def)
    next
      case (Cons buffer rest)
      define k where "k = min (sz - bytesRead) (int (length buffer))"
      have k0: "0 \<le> k" using True by (simp add: k_def)
      define result' where "result' = take (nat bytesRead) result @ take (nat k) buffer
                  @ drop (nat bytesRead + length (take (nat k) buffer)) result"
      define pool2 where "pool2 = pool\<lparr>buffers := (if k < int (length buffer)
                                then unshift rest (subarray_from buffer k)
                                else rest),
                             totalByteLength := totalByteLength pool - k\<rparr>"
      have sh: "shift (buffers pool) = (Some buffer, rest)" by (simp add: Cons shift_def)
      have setok: "set_at result (subarray buffer 0 k) bytesRead = Inr result'"
        using 1(3-) k0 True
        by (auto simp: set_at_def subarray_prefix result'_def k_def min_def)
      have step: "read_loop sz result bytesRead pool = read_loop sz result' (bytesRead + k) pool2"
        using True sh setok
        by (subst read_loop.simps) (simp add: Let_def k_def[symmetric] pool2_def)
      have c2: "concat (buffers pool2) = drop (nat k) (concat (buffers pool))"
        using k0 by (auto simp: pool2_def Cons unshift_def subarray_from_drop k_def min_def)
      have inv2: "pool_inv pool2"
        using 1(2) k0 c2 unfolding pool_inv_def
        by (auto simp: pool2_def Cons k_def min_def)
      have len': "int (length result') = sz"
        using 1(3-) k0 True by (auto simp: result'_def k_def min_def)
      have t2: "totalByteLength pool2 = totalByteLength pool - k" by (simp add: pool2_def)
      have kle: "k \<le> sz - bytesRead" by (simp add: k_def)
      have IH: "\<exists>pool'. read_loop sz result' (bytesRead + k) pool2 =
       (Inr (take (nat (bytesRead + k)) result' @ take (nat (sz - (bytesRead + k))) (concat (buffers pool2))), pool')
     \<and> pool_inv pool'
     \<and> concat (buffers pool') = drop (nat (sz - (bytesRead + k))) (concat (buffers pool2))
     \<and> totalByteLength pool' = totalByteLength pool2 - (sz - (bytesRead + k))"
        unfolding pool2_def k_def
        apply (rule 1(1)[OF True sh[symmetric] refl refl refl refl setok[unfolded k_def]])
        using inv2 len' k0 kle 1(3-) t2 unfolding pool2_def k_def by auto
      have pre: "take (nat (bytesRead + k)) result' = take (nat bytesRead) result @ take (nat k) buffer"
        using 1(3-) k0 True by (auto simp: result'_def k_def min_def nat_add_distrib)
      have klen: "k \<le> int (length buffer)" by (simp add: k_def)
      have cat: "take (nat k) buffer @ take (nat (sz - (bytesRead + k))) (drop (nat k) (concat (buffers pool)))
                 = take (nat (sz - bytesRead)) (concat (buffers pool))"
      proof -
        have "take (nat k) buffer = take (nat k) (concat (buffers pool))"
          using klen k0 by (simp add: Cons)
        moreover have "nat (sz - bytesRead) = nat k + nat (sz - (bytesRead + k))"
          using k0 kle by linarith
        ultimately show ?thesis by (simp add: take_add)
      qed
      have dr: "drop (nat (sz - (bytesRead + k))) (drop (nat k) (concat (buffers pool)))
                 = drop (nat (sz - bytesRead)) (concat (buffers pool))"
      proof -
        have "nat (sz - bytesRead) = nat (sz - (bytesRead + k)) + nat k"
          using k0 kle by linarith
        then show ?thesis by (simp add: add.commute)
      qed
      from IH obtain pool' where P: "read_loop sz result' (bytesRead + k) pool2 =
       (Inr (take (nat (bytesRead + k)) result' @ take (nat (sz - (bytesRead + k))) (concat (buffers pool2))), pool')"
       "pool_inv pool'"
       "concat (buffers pool') = drop (nat (sz - (bytesRead + k))) (concat (buffers pool2))"
       "totalByteLength pool' = totalByteLength pool2 - (sz - (bytesRead + k))" by blast
      show ?thesis
        apply (rule exI[of _ pool'])
        using P step pre cat dr c2 t2 by simp
    qed
  qed
qed

lemma le32_arith:
  fixes u h :: int
  assumes "0 \<le> u" "u < 16777216" "0 \<le> h" "h < 256"
  shows "u + ((h * 16777216 + 2147483648) mod 4294967296 - 2147483648)
           = (u + h * 16777216 + 2147483648) mod 4294967296 - 2147483648"
proof (cases "h < 128")
  case True
  with assms have "(h * 16777216 + 2147483648) mod 4294967296 = h * 16777216 + 2147483648"
     "(u + h * 16777216 + 2147483648) mod 4294967296 = u + h * 16777216 + 2147483648"
    by (simp_all add: mod_pos_pos_trivial)
  then show ?thesis by simp
next
  case False
  have a: "(h * 16777216 + 2147483648) mod 4294967296 = (h * 16777216 - 2147483648) mod 4294967296"
    using mod_add_self2[of "h * 16777216 - 2147483648" 4294967296] by (simp add: add.commute)
  have b: "(u + h * 16777216 + 2147483648) mod 4294967296 = (u + h * 16777216 - 2147483648) mod 4294967296"
    using mod_add_self2[of "u + h * 16777216 - 2147483648" 4294967296] by (simp add: add.commute add.left_commute)
  from False assms have "(h * 16777216 - 2147483648) mod 4294967296 = h * 16777216 - 2147483648"
     "(u + h * 16777216 - 2147483648) mod 4294967296 = u + h * 16777216 - 2147483648"
    by (simp_all add: mod_pos_pos_trivial)
  with a b show ?thesis by simp
qed

lemma push24: "push_bit 24 (ucast (b::8 word) :: 32 word) = word_of_int (uint b * 16777216)"
  by (simp add: push_bit_eq_mult)

lemma uint_byte_bound: "uint (b::8 word) < 256"
  using uint_bounded[of b] by simp

lemma readInt32LE_le_int32:
  "readInt32LE (b0 # b1 # b2 # b3 # rest) = Inr (le_int32 [b0, b1, b2, b3])"
proof -
  define u where "u = uint b0 + uint b1 * 256 + uint b2 * 65536"
  define h where "h = uint b3"
  have u: "0 \<le> u" "u < 16777216"
    using uint_byte_bound[of b0] uint_byte_bound[of b1] uint_byte_bound[of b2]
    by (simp_all add: u_def)
  have h: "0 \<le> h" "h < 256" using uint_byte_bound[of b3] by (simp_all add: h_def)
  have s1: "sint (push_bit 24 (ucast b3 :: 32 word)) = (h * 16777216 + 2147483648) mod 4294967296 - 2147483648"
    unfolding push24 int_word_sint h_def by simp
  have s2: "sint (word_of_int (u + h * 16777216) :: 32 word) = (u + h * 16777216 + 2147483648) mod 4294967296 - 2147483648"
    unfolding int_word_sint by simp
  have e: "le_unsigned [b0, b1, b2, b3] = u + h * 16777216"
    by (simp add: le_unsigned_def u_def h_def)
  have "readInt32LE (b0 # b1 # b2 # b3 # rest) = Inr (u + sint (push_bit 24 (ucast b3 :: 32 word)))"
    by (simp add: readInt32LE_def u_def)
  also have "u + sint (push_bit 24 (ucast b3 :: 32 word)) = le_int32 [b0, b1, b2, b3]"
    unfolding le_int32_def e s1 s2 using le32_arith[OF u h] by simp
  finally show ?thesis .
qed

lemma read_correct:
  assumes "pool_inv pool" "0 \<le> n" "n \<le> totalByteLength pool"
  shows "\<exists>pool'. read pool n = (Inr (take (nat n) (concat (buffers pool))), pool')
     \<and> pool_inv pool'
     \<and> concat (buffers pool') = drop (nat n) (concat (buffers pool))
     \<and> totalByteLength pool' = totalByteLength pool - n"
proof -
  have "int (length (allocUnsafe n)) = n" using assms(2) by (simp add: allocUnsafe_def)
  from read_loop_correct[OF assms(1) this, of 0] assms
  show ?thesis by (simp add: read_def)
qed

lemma foldl_append_buffers:
  "buffers (foldl append pool chunks) = buffers pool @ chunks"
  by (induction chunks arbitrary: pool) (simp_all add: append_def push_def)

lemma foldl_append_total:
  "totalByteLength (foldl append pool chunks)
     = totalByteLength pool + int (length (concat chunks))"
  by (induction chunks arbitrary: pool) (simp_all add: append_def)

lemma pool_inv_new: "pool_inv new_BufferPool"
  by (simp add: pool_inv_def new_BufferPool_def)

lemma pool_inv_append: "pool_inv pool \<Longrightarrow> pool_inv (append pool buffer)"
  by (simp add: pool_inv_def append_def push_def)

lemma pool_inv_appended: "pool_inv (foldl append new_BufferPool chunks)"
  by (simp add: pool_inv_def foldl_append_buffers foldl_append_total new_BufferPool_def)

text \<open>
  Claim C6. Append any sequence of chunks to a fresh pool and let \<open>tot\<close> be its total
  length. For every \<open>n\<close> with \<open>0 \<le> n \<le> tot\<close>, \<open>read(n)\<close> followed by
  \<open>read(tot - n)\<close> both return normally, and the two buffers, of lengths \<open>n\<close> and
  \<open>tot - n\<close>, concatenate to the concatenation of the chunks in the order appended.
\<close>

theorem read_split_reconstructs:
  assumes "pool = foldl append new_BufferPool chunks"
      and "tot = totalByteLength pool"
      and "0 \<le> n" and "n \<le> tot"
  shows "\<exists>a b pool1 pool2.
           read pool n = (Inr a, pool1)
         \<and> read pool1 (tot - n) = (Inr b, pool2)
         \<and> a @ b = concat chunks
         \<and> int (length a) = n \<and> int (length b) = tot - n"
proof -
  have inv: "pool_inv pool" by (simp add: assms(1) pool_inv_appended)
  have bufs: "concat (buffers pool) = concat chunks"
    by (simp add: assms(1) foldl_append_buffers new_BufferPool_def)
  have toteq: "tot = int (length (concat chunks))"
    using inv bufs by (simp add: assms(2) pool_inv_def)
  from read_correct[OF inv assms(3)] assms(2,4)
  obtain pool1 where 1: "read pool n = (Inr (take (nat n) (concat chunks)), pool1)"
      "pool_inv pool1" "concat (buffers pool1) = drop (nat n) (concat chunks)"
      "totalByteLength pool1 = tot - n"
    unfolding bufs by auto
  from read_correct[OF 1(2), of "tot - n"] assms(3,4) 1(4)
  obtain pool2 where 2: "read pool1 (tot - n)
        = (Inr (take (nat (tot - n)) (drop (nat n) (concat chunks))), pool2)"
    unfolding 1(3) by auto
  have full: "take (nat (tot - n)) (drop (nat n) (concat chunks)) = drop (nat n) (concat chunks)"
    using toteq assms(3,4) by simp
  show ?thesis
    using 1(1) 2 assms(3,4) toteq unfolding full
    by (intro exI[of _ "take (nat n) (concat chunks)"] exI[of _ "drop (nat n) (concat chunks)"]
          exI[of _ pool1] exI[of _ pool2]) auto
qed

theorem read_split_reconstructs_witness:
  "(0::int) \<le> 3
   \<and> 3 \<le> totalByteLength (foldl append new_BufferPool [[1, 2], [3], [], [4, 5, 6]])
   \<and> (\<exists>a b pool1 pool2.
         read (foldl append new_BufferPool [[1, 2], [3], [], [4, 5, 6]]) 3 = (Inr a, pool1)
       \<and> read pool1
            (totalByteLength (foldl append new_BufferPool [[1, 2], [3], [], [4, 5, 6]]) - 3)
           = (Inr b, pool2)
       \<and> a @ b = concat [[1, 2], [3], [], [4, 5, 6]]
       \<and> int (length a) = 3
       \<and> int (length b)
           = totalByteLength (foldl append new_BufferPool [[1, 2], [3], [], [4, 5, 6]]) - 3)"
proof -
  have le: "3 \<le> totalByteLength (foldl append new_BufferPool [[1, 2], [3], [], [4, 5, 6 :: byte]])"
    by (simp add: append_def new_BufferPool_def)
  show ?thesis
    using le read_split_reconstructs [OF refl refl _ le] by simp
qed

lemma take4_cons4: "length xs \<ge> 4 \<Longrightarrow> \<exists>b0 b1 b2 b3 rest. xs = b0 # b1 # b2 # b3 # rest"
  by (cases xs; simp; rename_tac ys, case_tac ys; simp; rename_tac zs, case_tac zs; simp;
      rename_tac ws, case_tac ws; simp)

lemma readInt32LE_take4:
  assumes "length xs \<ge> 4"
  shows "readInt32LE xs = Inr (le_int32 (take 4 xs))"
proof -
  from take4_cons4[OF assms] obtain b0 b1 b2 b3 rest where "xs = b0 # b1 # b2 # b3 # rest"
    by blast
  then show ?thesis by (simp add: readInt32LE_le_int32)
qed

text \<open>Every operation of the pool keeps its invariant, so every pool that is built from
  a fresh one satisfies it.\<close>

lemma pool_inv_read:
  assumes "pool_inv pool"
  shows "pool_inv (snd (read pool n))"
proof (cases "0 \<le> n \<and> n \<le> totalByteLength pool")
  case True
  then show ?thesis using read_correct[OF assms, of n] by auto
next
  case False
  then show ?thesis using assms by (auto simp: read_def)
qed

lemma pool_inv_getInt32:
  assumes "pool_inv pool"
  shows "pool_inv (snd (getInt32 pool))"
proof (cases "totalByteLength pool < 4")
  case True
  then show ?thesis using assms by (simp add: getInt32_def)
next
  case False
  from read_correct[OF assms, of 4] False
  obtain pool1 where 1: "read pool 4 = (Inr (take 4 (concat (buffers pool))), pool1)"
      "pool_inv pool1"
    by auto
  have len: "length (take 4 (concat (buffers pool))) = 4"
    using assms False by (simp add: pool_inv_def)
  have "pool_inv (pool1\<lparr>totalByteLength := totalByteLength pool1 + 4,
                        buffers := unshift (buffers pool1) (take 4 (concat (buffers pool)))\<rparr>)"
    using 1(2) len by (simp add: pool_inv_def unshift_def)
  then show ?thesis
    using False assms 1
    by (auto simp: getInt32_def split: option.splits sum.splits)
qed

text \<open>
  Claim C7. In a pool whose running total is the number of buffered bytes: with at least
  4 bytes buffered, \<open>getInt32\<close> returns the little-endian 32-bit integer of the first 4
  buffered bytes, and the pool it leaves has the same total length and the same
  concatenated content, whether or not the 4 bytes lie in the first chunk; with fewer
  than 4 bytes it returns \<open>null\<close> and the pool is unchanged.
\<close>

theorem getInt32_peeks:
  assumes "pool_inv pool"
  shows "(4 \<le> totalByteLength pool \<longrightarrow>
            (\<exists>pool'. getInt32 pool = (Inr (Some (le_int32 (take 4 (concat (buffers pool))))), pool')
               \<and> totalByteLength pool' = totalByteLength pool
               \<and> concat (buffers pool') = concat (buffers pool)))
       \<and> (totalByteLength pool < 4 \<longrightarrow> getInt32 pool = (Inr None, pool))"
proof (intro conjI impI)
  assume "totalByteLength pool < 4"
  then show "getInt32 pool = (Inr None, pool)" by (simp add: getInt32_def)
next
  assume ge: "4 \<le> totalByteLength pool"
  show "\<exists>pool'. getInt32 pool = (Inr (Some (le_int32 (take 4 (concat (buffers pool))))), pool')
               \<and> totalByteLength pool' = totalByteLength pool
               \<and> concat (buffers pool') = concat (buffers pool)"
  proof (cases "\<exists>fb rest. buffers pool = fb # rest \<and> 4 \<le> length fb")
    case True
    then obtain fb rest where fb: "buffers pool = fb # rest" "4 \<le> length fb" by blast
    have "take 4 (concat (buffers pool)) = take 4 fb" using fb by simp
    then show ?thesis
      using ge fb by (simp add: getInt32_def first_def readInt32LE_take4)
  next
    case False
    then have sel: "(case first (buffers pool) of None \<Rightarrow> None
               | Some firstBuffer \<Rightarrow>
                   if int (length firstBuffer) \<ge> 4 then Some firstBuffer else None) = None"
      by (auto simp: first_def split: list.splits)
    from read_correct[OF assms, of 4] ge
    obtain pool1 where 1: "read pool 4 = (Inr (take 4 (concat (buffers pool))), pool1)"
      "concat (buffers pool1) = drop 4 (concat (buffers pool))"
      "totalByteLength pool1 = totalByteLength pool - 4"
      by auto
    have len: "4 \<le> length (take 4 (concat (buffers pool)))"
      using assms ge by (simp add: pool_inv_def)
    have rd: "readInt32LE (take 4 (concat (buffers pool))) = Inr (le_int32 (take 4 (concat (buffers pool))))"
      using readInt32LE_take4[OF len] by simp
    show ?thesis
      using ge sel 1 rd by (simp add: getInt32_def unshift_def)
  qed
qed

theorem getInt32_peeks_witness:
  "pool_inv \<lparr>buffers = [[1, 2], [3], [], [255, 9]], totalByteLength = 5\<rparr>
   \<and> (\<exists>pool'. getInt32 \<lparr>buffers = [[1, 2], [3], [], [255, 9]], totalByteLength = 5\<rparr>
                 = (Inr (Some (- 16580095)), pool')
             \<and> totalByteLength pool' = 5
             \<and> concat (buffers pool') = [1, 2, 3, 255, 9])
   \<and> pool_inv \<lparr>buffers = [[7], [8]], totalByteLength = 2\<rparr>
   \<and> getInt32 \<lparr>buffers = [[7], [8]], totalByteLength = 2\<rparr>
        = (Inr None, \<lparr>buffers = [[7], [8]], totalByteLength = 2\<rparr>)"
proof -
  have i1: "pool_inv \<lparr>buffers = [[1, 2], [3], [], [255, 9]], totalByteLength = 5\<rparr>"
    by (simp add: pool_inv_def)
  have i2: "pool_inv \<lparr>buffers = [[7], [8]], totalByteLength = 2\<rparr>"
    by (simp add: pool_inv_def)
  have v: "le_int32 [1, 2, 3, 255] = - 16580095"
    by (simp add: le_int32_def le_unsigned_def)
  show ?thesis
    using i1 i2 getInt32_peeks [OF i1] getInt32_peeks [OF i2] v by simp
qed

section \<open>Properties of \<open>HostAddress\<close>\<close>

lemma escaped_examples:
  "join ''%20'' (split CHR '' '' ''Example.COM:27017'') = ''Example.COM:27017''"
  "join ''%20'' (split CHR '' '' ''example.com'') = ''example.com''"
  "join ''%20'' (split CHR '' '' ''host:0'') = ''host:0''"
  "join ''%20'' (split CHR '' '' ''/tmp/mongo.sock'') = ''/tmp/mongo.sock''"
  by code_simp+

lemma endsWith_examples:
  "\<not> endsWith ''Example.COM:27017'' ''.sock''"
  "\<not> endsWith ''example.com'' ''.sock''"
  "\<not> endsWith ''host:0'' ''.sock''"
  "endsWith ''/tmp/mongo.sock'' ''.sock''"
  by code_simp+

lemma lower_examples:
  "toLowerCase ''Example.COM'' = ''example.com''"
  "toLowerCase ''example.com'' = ''example.com''"
  "toLowerCase ''host'' = ''host''"
  by code_simp+

lemma bracket_examples:
  "\<not> startsWith ''example.com'' ''[''"
  "\<not> startsWith ''host'' ''[''"
  by code_simp+

lemma parseInt_examples:
  "parseInt ''27017'' = Num 27017"
  "parseInt ''0'' = Num 0"
  by code_simp+

lemma percent_free_examples:
  "CHR ''%'' \<notin> set ''Example.COM''"
  "CHR ''%'' \<notin> set ''example.com''"
  "CHR ''%'' \<notin> set ''host''"
  "CHR ''%'' \<notin> set ''/tmp/mongo.sock''"
  by simp_all

lemma HostAddress_new_zero_port:
  assumes "\<not> endsWith (join ''%20'' (split CHR '' '' hostString)) ''.sock''"
      and "URL_new pf (''iLoveJS://'' @ join ''%20'' (split CHR '' '' hostString)) = Some url"
      and "url_port url = ''0''"
      and "decodeURIComponent pf (hostname url) = Some decoded"
  shows "HostAddress_new pf hostString
           = Inl (Err MongoParseError ''Invalid port (zero) with hostname'' None [] None)"
  using assms
  by (simp add: HostAddress_new_def Let_def parseInt_examples mk_error_def)

text \<open>
  Claim C9. Given what the platform's \<open>URL\<close> answers for the three URLs involved, and
  that \<open>decodeURIComponent\<close> leaves a string without a percent sign as it is:
  \<open>Example.COM:27017\<close> and \<open>example.com\<close> construct equal instances, with host
  \<open>example.com\<close> and port 27017; \<open>host:0\<close> fails with a \<open>MongoParseError\<close>, as does
  every host string for which \<open>URL\<close> reports the port \<open>0\<close>; \<open>/tmp/mongo.sock\<close>
  constructs an instance that has the socket path and neither host nor port.
\<close>

theorem HostAddress_canonical:
  assumes "URL_new pf ''iLoveJS://Example.COM:27017''
             = Some \<lparr>hostname = ''Example.COM'', url_port = ''27017''\<rparr>"
      and "URL_new pf ''iLoveJS://example.com''
             = Some \<lparr>hostname = ''example.com'', url_port = ''''\<rparr>"
      and "URL_new pf ''iLoveJS://host:0'' = Some \<lparr>hostname = ''host'', url_port = ''0''\<rparr>"
      and "\<forall>s. CHR ''%'' \<notin> set s \<longrightarrow> decodeURIComponent pf s = Some s"
  shows "HostAddress_new pf ''Example.COM:27017''
           = Inr \<lparr>host = Some ''example.com'', port = Some (Num 27017),
                  socketPath = None, isIPv6 = False\<rparr>
       \<and> HostAddress_new pf ''example.com'' = HostAddress_new pf ''Example.COM:27017''
       \<and> HostAddress_new pf ''host:0''
           = Inl (Err MongoParseError ''Invalid port (zero) with hostname'' None [] None)
       \<and> (\<forall>hostString url decoded.
             \<not> endsWith (join ''%20'' (split CHR '' '' hostString)) ''.sock''
           \<and> URL_new pf (''iLoveJS://'' @ join ''%20'' (split CHR '' '' hostString)) = Some url
           \<and> url_port url = ''0''
           \<and> decodeURIComponent pf (hostname url) = Some decoded
           \<longrightarrow> HostAddress_new pf hostString
                 = Inl (Err MongoParseError ''Invalid port (zero) with hostname'' None [] None))
       \<and> HostAddress_new pf ''/tmp/mongo.sock''
           = Inr \<lparr>host = None, port = None, socketPath = Some ''/tmp/mongo.sock'',
                  isIPv6 = False\<rparr>"
proof -
  have d: "decodeURIComponent pf ''Example.COM'' = Some ''Example.COM''"
          "decodeURIComponent pf ''example.com'' = Some ''example.com''"
          "decodeURIComponent pf ''host'' = Some ''host''"
          "decodeURIComponent pf ''/tmp/mongo.sock'' = Some ''/tmp/mongo.sock''"
    using assms(4) percent_free_examples by blast+
  have 1: "HostAddress_new pf ''Example.COM:27017''
           = Inr \<lparr>host = Some ''example.com'', port = Some (Num 27017),
                  socketPath = None, isIPv6 = False\<rparr>"
    unfolding HostAddress_new_def escaped_examples Let_def
    using assms(1) d(1)
    by (simp add: endsWith_examples lower_examples bracket_examples parseInt_examples
          HostAddress_init_def)
  have 2: "HostAddress_new pf ''example.com''
           = Inr \<lparr>host = Some ''example.com'', port = Some (Num 27017),
                  socketPath = None, isIPv6 = False\<rparr>"
    unfolding HostAddress_new_def escaped_examples Let_def
    using assms(2) d(2)
    by (simp add: endsWith_examples lower_examples bracket_examples HostAddress_init_def)
  have 3: "HostAddress_new pf ''host:0''
           = Inl (Err MongoParseError ''Invalid port (zero) with hostname'' None [] None)"
    using assms(3) d(3)
    by (intro HostAddress_new_zero_port[where url = "\<lparr>hostname = ''host'', url_port = ''0''\<rparr>"])
       (simp_all add: escaped_examples endsWith_examples)
  have 4: "HostAddress_new pf ''/tmp/mongo.sock''
           = Inr \<lparr>host = None, port = None, socketPath = Some ''/tmp/mongo.sock'',
                  isIPv6 = False\<rparr>"
    unfolding HostAddress_new_def escaped_examples Let_def
    using d(4) by (simp add: endsWith_examples HostAddress_init_def)
  have 5: "\<forall>hostString url decoded.
             \<not> endsWith (join ''%20'' (split CHR '' '' hostString)) ''.sock''
           \<and> URL_new pf (''iLoveJS://'' @ join ''%20'' (split CHR '' '' hostString)) = Some url
           \<and> url_port url = ''0''
           \<and> decodeURIComponent pf (hostname url) = Some decoded
           \<longrightarrow> HostAddress_new pf hostString
                 = Inl (Err MongoParseError ''Invalid port (zero) with hostname'' None [] None)"
    using HostAddress_new_zero_port by blast
  from 1 2 3 4 5 show ?thesis by simp
qed

lemma plain_platform_examples:
  "URL_new plain_platform ''iLoveJS://Example.COM:27017''
             = Some \<lparr>hostname = ''Example.COM'', url_port = ''27017''\<rparr>"
  "URL_new plain_platform ''iLoveJS://example.com''
             = Some \<lparr>hostname = ''example.com'', url_port = ''''\<rparr>"
  "URL_new plain_platform ''iLoveJS://host:0'' = Some \<lparr>hostname = ''host'', url_port = ''0''\<rparr>"
  by code_simp+

lemma plain_platform_decode:
  "\<forall>s. CHR ''%'' \<notin> set s \<longrightarrow> decodeURIComponent plain_platform s = Some s"
  by (simp add: plain_platform_def plain_decodeURIComponent_def)

theorem HostAddress_canonical_witness:
  "URL_new plain_platform ''iLoveJS://Example.COM:27017''
       = Some \<lparr>hostname = ''Example.COM'', url_port = ''27017''\<rparr>
   \<and> URL_new plain_platform ''iLoveJS://example.com''
       = Some \<lparr>hostname = ''example.com'', url_port = ''''\<rparr>
   \<and> URL_new plain_platform ''iLoveJS://host:0''
       = Some \<lparr>hostname = ''host'', url_port = ''0''\<rparr>
   \<and> decodeURIComponent plain_platform ''Example.COM'' = Some ''Example.COM''
   \<and> HostAddress_new plain_platform ''Example.COM:27017''
       = Inr \<lparr>host = Some ''example.com'', port = Some (Num 27017),
              socketPath = None, isIPv6 = False\<rparr>
   \<and> HostAddress_new plain_platform ''example.com''
       = HostAddress_new plain_platform ''Example.COM:27017''
   \<and> HostAddress_new plain_platform ''host:0''
       = Inl (Err MongoParseError ''Invalid port (zero) with hostname'' None [] None)
   \<and> HostAddress_new plain_platform ''/tmp/mongo.sock''
       = Inr \<lparr>host = None, port = None, socketPath = Some ''/tmp/mongo.sock'',
              isIPv6 = False\<rparr>"
  using HostAddress_canonical [OF plain_platform_examples plain_platform_decode]
        plain_platform_examples plain_platform_decode
  by (simp add: plain_platform_def plain_decodeURIComponent_def)

section \<open>Properties of the execution pipeline: the retry stage\<close>

lemma trace_log [simp]: "trace (log ev w) = trace w @ [ev]"
  by (simp add: log_def)

lemma log_fields [simp]:
  "client (log ev w) = client w" "sessions (log ev w) = sessions w"
  "operation (log ev w) = operation w" "ctx (log ev w) = ctx w"
  "next_session (log ev w) = next_session w" "next_symbol (log ev w) = next_symbol w"
  by (simp_all add: log_def)

lemma same_setup_refl [simp]: "same_setup w w"
  by (simp add: same_setup_def)

lemma same_setup_trans: "same_setup w w1 \<Longrightarrow> same_setup w1 w2 \<Longrightarrow> same_setup w w2"
  by (simp add: same_setup_def)

lemma sessions_kept_refl [simp]: "sessions_kept w w"
  by (simp add: sessions_kept_def)

lemma sessions_kept_trans: "sessions_kept w w1 \<Longrightarrow> sessions_kept w1 w2 \<Longrightarrow> sessions_kept w w2"
  by (simp add: sessions_kept_def)

lemma quiet_simps [simp]:
  "quiet []" "quiet (a @ b) \<longleftrightarrow> quiet a \<and> quiet b"
  "quiet (e # es) \<longleftrightarrow> \<not> is_session_event e \<and> quiet es"
  by (auto simp: quiet_def)

lemma runCommand_cases:
  assumes "runCommand E w = (r, w')"
  obtains out where
    "trace w' = trace w @ [Execute (ctx_server (ctx w)) (ctx_session (ctx w)) out]"
    "same_setup w w'" "sessions_kept w w'"
    "case out of Inl e \<Rightarrow> r = Inl e | Inr d \<Rightarrow> r = Inr () \<and> ctx_result (ctx w') = Some d"
  using assms
  by (auto simp: runCommand_def Let_def same_setup_def sessions_kept_def split: sum.splits)

lemma selectServerAsync_world:
  "selectServerAsync E sel ss w = (r, w') \<Longrightarrow> w' = log (SelectServer sel ss) w"
  by (simp add: selectServerAsync_def)

lemma unpin_facts [simp]:
  "trace (unpin sid f w) = trace w @ [Unpin sid f]"
  "same_setup w (unpin sid f w)"
  "sessions_kept w (unpin sid f w)"
  "operation (unpin sid f w) = operation w"
  "ctx (unpin sid f w) = ctx w"
  "client (unpin sid f w) = client w"
  by (auto simp: unpin_def same_setup_def sessions_kept_def)

lemma incrementTransactionNumber_facts [simp]:
  "trace (incrementTransactionNumber sid w) = trace w @ [IncrementTransactionNumber sid]"
  "same_setup w (incrementTransactionNumber sid w)"
  "sessions_kept w (incrementTransactionNumber sid w)"
  "operation (incrementTransactionNumber sid w) = operation w"
  "ctx (incrementTransactionNumber sid w) = ctx w"
  "client (incrementTransactionNumber sid w) = client w"
  by (auto simp: incrementTransactionNumber_def same_setup_def sessions_kept_def)

lemma retryOnError_cases:
  assumes run: "retryOnError E (runCommand E) sid sel e1 w = (r, w')"
  obtains new where
    "trace w' = trace w @ new" "quiet new" "same_setup w w'" "sessions_kept w w'"
    "(filter inner_event new = [] \<and> isl r)
     \<or> (\<exists>sv ss out. filter inner_event new = [Execute sv ss out] \<and> second_outcome e1 out r w')"
proof -
  define w3 where "w3 = (if instanceof_MongoNetworkError e1 \<and> isPinned (sessions w sid)
                      \<and> \<not> inTransaction (sessions w sid)
                      \<and> hasAspect (operation w) CURSOR_CREATING
                   then unpin sid True w else w)"
  obtain pre where w3: "trace w3 = trace w @ pre" "quiet pre" "filter inner_event pre = []"
     "same_setup w w3" "sessions_kept w w3" "operation w3 = operation w" "ctx w3 = ctx w"
    by (cases "instanceof_MongoNetworkError e1 \<and> isPinned (sessions w sid)
                      \<and> \<not> inTransaction (sessions w sid)
                      \<and> hasAspect (operation w) CURSOR_CREATING")
       (auto simp: w3_def inner_event_def)
  define w4 where "w4 = log (SelectServer sel (Some sid)) w3"
  have w4: "trace w4 = trace w @ pre @ [SelectServer sel (Some sid)]" "same_setup w w4"
     "sessions_kept w w4"
    using w3 by (simp_all add: w4_def same_setup_def sessions_kept_def)
  consider (stop) "isl r" "w' = w \<or> w' = w4"
    | (again) "\<exists>r2 . runCommand E w4 = (r2, w') \<and>
         (case r2 of Inl e2 \<Rightarrow> r = Inl (if instanceof_MongoError e2 \<and> hasErrorLabel e2 NoWritesPerformed
                   then e1 else e2) | Inr u \<Rightarrow> r = Inl e1)"
    using run
    unfolding retryOnError_def Let_def w3_def[symmetric]
    by (auto simp: selectServerAsync_def w4_def split: if_splits sum.splits prod.splits)
  then show ?thesis
  proof cases
    case stop
    then show ?thesis
      using w3 w4 that[of "[]"] that[of "pre @ [SelectServer sel (Some sid)]"]
      by (auto simp: inner_event_def)
  next
    case again
    then obtain r2 where r2: "runCommand E w4 = (r2, w')"
      "case r2 of Inl e2 \<Rightarrow> r = Inl (if instanceof_MongoError e2 \<and> hasErrorLabel e2 NoWritesPerformed
                   then e1 else e2) | Inr u \<Rightarrow> r = Inl e1" by blast
    from r2(1) obtain out where out:
      "trace w' = trace w4 @ [Execute (ctx_server (ctx w4)) (ctx_session (ctx w4)) out]"
      "same_setup w4 w'" "sessions_kept w4 w'"
      "case out of Inl e \<Rightarrow> r2 = Inl e | Inr d \<Rightarrow> r2 = Inr () \<and> ctx_result (ctx w') = Some d"
      by (rule runCommand_cases)
    have so: "second_outcome e1 out r w'"
      using out(4) r2(2) by (auto simp: second_outcome_def split: sum.splits)
    show ?thesis
      apply (rule that[of "pre @ [SelectServer sel (Some sid),
                Execute (ctx_server (ctx w4)) (ctx_session (ctx w4)) out]"])
      using out w4 w3 so same_setup_trans[OF w4(2) out(2)] sessions_kept_trans[OF w4(3) out(3)]
      by (auto simp: inner_event_def)
  qed
qed

lemma attempts_single:
  "case out of Inl e \<Rightarrow> r = Inl e | Inr d \<Rightarrow> r = Inr () \<and> ctx_result (ctx w') = Some d
   \<Longrightarrow> attempts [Execute sv ss out] r w'"
  by (auto simp: attempts_def split: sum.splits)

lemma withRetryability_cases:
  assumes run: "withRetryability E (runCommand E) w = (r, w')"
  obtains new execs where
    "trace w' = trace w @ new" "quiet new" "same_setup w w'" "sessions_kept w w'"
    "filter inner_event new = increments w @ execs"
    "(execs = [] \<and> topology (client w) = None \<and> isl r) \<or> attempts execs r w'"
proof (cases "topology (client w)")
  case None
  with run have "w' = w" "isl r" by (auto simp: withRetryability_def)
  then show ?thesis using None that[of "[]" "[]"] by (simp add: increments_def)
next
  case (Some tp)
  show ?thesis
  proof (cases "ctx_session (ctx w) = None \<or> \<not> hasAspect (operation w) RETRYABLE")
    case True
    then have "runCommand E w = (r, w')"
      using run Some by (cases "ctx_session (ctx w)") (auto simp: withRetryability_def Let_def)
    then obtain out where out:
      "trace w' = trace w @ [Execute (ctx_server (ctx w)) (ctx_session (ctx w)) out]"
      "same_setup w w'" "sessions_kept w w'"
      "case out of Inl e \<Rightarrow> r = Inl e | Inr d \<Rightarrow> r = Inr () \<and> ctx_result (ctx w') = Some d"
      by (rule runCommand_cases)
    have inc: "increments w = []" using True Some by (auto simp: increments_def split: option.splits)
    show ?thesis
      apply (rule that[of "[Execute (ctx_server (ctx w)) (ctx_session (ctx w)) out]"
                          "[Execute (ctx_server (ctx w)) (ctx_session (ctx w)) out]"])
      using out inc attempts_single[OF out(4)] by (simp_all add: inner_event_def)
  next
    case False
    then obtain sid where sid: "ctx_session (ctx w) = Some sid"
      and retryable: "hasAspect (operation w) RETRYABLE" by auto
    define willRetryWrite where "willRetryWrite =
       (retryWrites tp \<and> \<not> ctx_inTransaction (ctx w) \<and> supportsRetryableWrites (ctx_server (ctx w))
                              \<and> canRetryWrite (operation w))"
    define willRetry where "willRetry =
       ((hasAspect (operation w) READ_OPERATION \<and>
           (retryReads tp \<and> \<not> ctx_inTransaction (ctx w) \<and> canRetryRead (operation w)))
        \<or> (hasAspect (operation w) WRITE_OPERATION \<and> willRetryWrite))"
    define w1 where "w1 = (if hasAspect (operation w) WRITE_OPERATION \<and> willRetryWrite
                            then incrementTransactionNumber sid
                                   (w\<lparr>operation := (operation w)\<lparr>options_willRetryWrite := True\<rparr>\<rparr>)
                            else w)"
    have w1: "trace w1 = trace w @ increments w" "same_setup w w1" "sessions_kept w w1"
        "ctx w1 = ctx w"
      using Some sid retryable
      by (auto simp: w1_def increments_def willRetryWrite_def same_setup_def sessions_kept_def
            incrementTransactionNumber_def log_def)
    have unfold: "withRetryability E (runCommand E) w =
          (case runCommand E w1 of
             (Inr u, w2) \<Rightarrow> (Inr u, w2)
           | (Inl operationError, w2) \<Rightarrow>
               if willRetry \<and> instanceof_MongoError operationError
               then retryOnError E (runCommand E) sid (ctx_selector (ctx w)) operationError w2
               else (Inl operationError, w2))"
      using Some sid retryable
      unfolding withRetryability_def Let_def w1_def willRetry_def willRetryWrite_def
      by simp
    obtain r1 w2 where first: "runCommand E w1 = (r1, w2)" by (cases "runCommand E w1")
    from first obtain out where out:
      "trace w2 = trace w1 @ [Execute (ctx_server (ctx w1)) (ctx_session (ctx w1)) out]"
      "same_setup w1 w2" "sessions_kept w1 w2"
      "case out of Inl e \<Rightarrow> r1 = Inl e | Inr d \<Rightarrow> r1 = Inr () \<and> ctx_result (ctx w2) = Some d"
      by (rule runCommand_cases)
    let ?ex1 = "Execute (ctx_server (ctx w1)) (ctx_session (ctx w1)) out"
    have incs_inner: "filter inner_event (increments w) = increments w"
      by (auto simp: increments_def inner_event_def split: option.splits)
    have incs_quiet: "quiet (increments w)"
      by (auto simp: increments_def split: option.splits)
    show ?thesis
    proof (cases "\<exists>e1. r1 = Inl e1 \<and> willRetry \<and> instanceof_MongoError e1")
      case False
      then have "r = r1" "w' = w2"
        using run first unfolding unfold by (auto split: sum.splits)
      then show ?thesis
        using out w1 incs_inner incs_quiet attempts_single[OF out(4)]
          same_setup_trans[OF w1(2) out(2)] sessions_kept_trans[OF w1(3) out(3)]
          that[of "increments w @ [?ex1]" "[?ex1]"]
        by (simp add: inner_event_def)
    next
      case True
      then obtain e1 where e1: "r1 = Inl e1" "willRetry" "instanceof_MongoError e1" by blast
      then have out1: "out = Inl e1" using out(4) by (cases out) auto
      have "retryOnError E (runCommand E) sid (ctx_selector (ctx w)) e1 w2 = (r, w')"
        using run first e1 unfolding unfold by simp
      then obtain new2 where new2:
        "trace w' = trace w2 @ new2" "quiet new2" "same_setup w2 w'" "sessions_kept w2 w'"
        "(filter inner_event new2 = [] \<and> isl r)
         \<or> (\<exists>sv ss out2. filter inner_event new2 = [Execute sv ss out2] \<and> second_outcome e1 out2 r w')"
        by (rule retryOnError_cases)
      have ss: "same_setup w w'"
        using same_setup_trans[OF same_setup_trans[OF w1(2) out(2)] new2(3)] .
      have sk: "sessions_kept w w'"
        using sessions_kept_trans[OF sessions_kept_trans[OF w1(3) out(3)] new2(4)] .
      from new2(5) show ?thesis
      proof
        assume n: "filter inner_event new2 = [] \<and> isl r"
        then have "attempts [?ex1] r w'" by (auto simp: attempts_def out1)
        then show ?thesis
          using that[of "increments w @ [?ex1] @ new2" "[?ex1]"] n out w1 new2 ss sk incs_inner incs_quiet
          by (simp add: inner_event_def)
      next
        assume "\<exists>sv ss out2. filter inner_event new2 = [Execute sv ss out2] \<and> second_outcome e1 out2 r w'"
        then obtain sv ss out2 where n: "filter inner_event new2 = [Execute sv ss out2]"
          "second_outcome e1 out2 r w'" by blast
        have "attempts [?ex1, Execute sv ss out2] r w'"
          using n(2) by (auto simp: attempts_def out1)
        then show ?thesis
          using that[of "increments w @ [?ex1] @ new2" "[?ex1, Execute sv ss out2]"]
            n out w1 new2 ss sk incs_inner incs_quiet
          by (simp add: inner_event_def)
      qed
    qed
  qed
qed

section \<open>Properties of the execution pipeline: the stages around it\<close>

lemma attempts_ctx:
  assumes "attempts execs r wb" and "ctx wc = ctx wb"
  shows "attempts execs r wc"
  using assms(1) unfolding attempts_def second_outcome_def assms(2) .

lemma same_setup_ctx:
  "same_setup w1 wb \<Longrightarrow> ctx wc = ctx wb \<Longrightarrow> client wc = client wb
     \<Longrightarrow> operation wc = operation wb \<Longrightarrow> same_setup w1 wc"
  unfolding same_setup_def by simp

lemma retry_run_transfer:
  assumes "retry_run wa mid r wb"
      and "ctx_server (ctx wa) = ctx_server (ctx w)"
      and "ctx wc = ctx wb" "client wc = client wb" "operation wc = operation wb"
      and "filter inner_event mid2 = filter inner_event mid"
  shows "retry_run w mid2 r wc"
proof -
  from assms(1) consider
      (stopped) "isl r" "filter inner_event mid = []" "ctx_server (ctx wb) = ctx_server (ctx wa)"
    | (ran) w1 execs where "filter inner_event mid = increments w1 @ execs"
        "attempts execs r wb" "same_setup w1 wb"
    unfolding retry_run_def by blast
  then show ?thesis
  proof cases
    case stopped
    then show ?thesis using assms(2,3,6) by (simp add: retry_run_def)
  next
    case ran
    have "attempts execs r wc" using attempts_ctx[OF ran(2) assms(3)] .
    moreover have "same_setup w1 wc" using same_setup_ctx[OF ran(3) assms(3,4,5)] .
    ultimately show ?thesis using ran(1) assms(6) unfolding retry_run_def by auto
  qed
qed

lemma inner_run:
  assumes run: "inner E w = (r, w')"
  obtains mid where "trace w' = trace w @ mid" "quiet mid" "sessions_kept w w'"
    "retry_run w mid r w'"
proof (cases "topology (client w)")
  case None
  with run have "w' = w" "isl r" by (auto simp: inner_def withServer_def Let_def)
  then show ?thesis using that[of "[]"] by (simp add: retry_run_def)
next
  case (Some tp)
  define selector where "selector =
            (if hasAspect (operation w) MUST_SELECT_SAME_SERVER
             then Some (sameServerSelector (map_option description (op_server (operation w))))
             else if trySecondaryWrite (operation w)
             then (case topology (client w) of
                     None \<Rightarrow> None
                   | Some tp \<Rightarrow>
                       Some (secondaryWritableServerSelector (commonWireVersion tp)
                               (ctx_readPreference (ctx w))))
             else Some (readPreferenceSelector (ctx_readPreference (ctx w))))"
  define w0 where "w0 = log (SelectServer selector (ctx_session (ctx w))) w"
  have unfold: "inner E w =
     (case select_outcome E (length (filter is_SelectServer (trace w))) of
        Inl e \<Rightarrow> (Inl e, w0)
      | Inr server \<Rightarrow>
          withRetryability E (runCommand E)
            (w0\<lparr>ctx := (ctx w0)\<lparr>ctx_server := Some server, ctx_selector := selector\<rparr>\<rparr>))"
    using Some
    unfolding inner_def withServer_def Let_def selector_def w0_def selectServerAsync_def
    by (simp split: sum.splits)
  show ?thesis
  proof (cases "select_outcome E (length (filter is_SelectServer (trace w)))")
    case (Inl e)
    with run unfold have "r = Inl e" "w' = w0" by simp_all
    then show ?thesis
      using that[of "[SelectServer selector (ctx_session (ctx w))]"]
      by (simp add: w0_def retry_run_def inner_event_def sessions_kept_def)
  next
    case (Inr server)
    define w1 where "w1 = w0\<lparr>ctx := (ctx w0)\<lparr>ctx_server := Some server, ctx_selector := selector\<rparr>\<rparr>"
    have w1: "trace w1 = trace w @ [SelectServer selector (ctx_session (ctx w))]"
      "sessions_kept w w1" "topology (client w1) = Some tp"
      using Some by (simp_all add: w1_def w0_def sessions_kept_def)
    from run unfold Inr have "withRetryability E (runCommand E) w1 = (r, w')"
      by (simp add: w1_def)
    then obtain new execs where new:
      "trace w' = trace w1 @ new" "quiet new" "same_setup w1 w'" "sessions_kept w1 w'"
      "filter inner_event new = increments w1 @ execs"
      "(execs = [] \<and> topology (client w1) = None \<and> isl r) \<or> attempts execs r w'"
      by (rule withRetryability_cases)
    have "retry_run w ([SelectServer selector (ctx_session (ctx w))] @ new) r w'"
      using new w1(3) unfolding retry_run_def
      by (intro disjI2 exI[of _ w1] exI[of _ execs]) (simp add: inner_event_def)
    then show ?thesis
      using that[of "[SelectServer selector (ctx_session (ctx w))] @ new"] new w1
        sessions_kept_trans[OF w1(2) new(4)]
      by simp
  qed
qed

lemma endSession_facts [simp]:
  "trace (snd (endSession E sid w)) = trace w @ [EndSession sid]"
  "ctx (snd (endSession E sid w)) = ctx w"
  "client (snd (endSession E sid w)) = client w"
  "operation (snd (endSession E sid w)) = operation w"
  "owner (sessions (snd (endSession E sid w)) s) = owner (sessions w s)"
  by (auto simp: endSession_def split: option.splits)

lemma withSessionBound_run:
  assumes run: "withSessionBound E session ownerSym (inner E) w = (r, w')"
  obtains (early) sid where "isl r" "w' = w" "session = Some sid" "inTransaction (sessions w sid)"
  | (ran) mid where "trace w' = trace w @ mid @ ends session ownerSym w" "quiet mid"
      "retry_run w mid r w'"
      "ends session ownerSym w = [] \<longrightarrow> sessions_kept w w'"
proof -
  define readPreference where "readPreference =
            (case op_readPreference (operation w) of None \<Rightarrow> primary | Some rp \<Rightarrow> rp)"
  define inTransaction' where "inTransaction' =
            (case session of None \<Rightarrow> False | Some sid \<Rightarrow> inTransaction (sessions w sid))"
  show ?thesis
  proof (cases "inTransaction' \<and> readPreference \<noteq> primary")
    case True
    then obtain sid where "session = Some sid" "inTransaction (sessions w sid)"
      by (auto simp: inTransaction'_def split: option.splits)
    moreover have "isl r" "w' = w"
      using run True unfolding withSessionBound_def Let_def readPreference_def[symmetric]
         inTransaction'_def[symmetric] by auto
    ultimately show ?thesis using early by blast
  next
    case False
    define w2 where "w2 = (case session of
                     None \<Rightarrow> w
                   | Some sid \<Rightarrow>
                       if isPinned (sessions w sid) \<and> isCommitted (sessions w sid)
                          \<and> \<not> bypassPinningCheck (operation w)
                       then unpin sid False w else w)"
    define w3 where "w3 = w2\<lparr>ctx := (ctx w2)\<lparr>ctx_session := session,
                                         ctx_owner := ownerSym,
                                         ctx_readPreference := Some readPreference,
                                         ctx_inTransaction := inTransaction'\<rparr>\<rparr>"
    have "\<exists>pre. trace w2 = trace w @ pre \<and> quiet pre \<and> filter inner_event pre = []
        \<and> sessions_kept w w2 \<and> ctx_server (ctx w2) = ctx_server (ctx w)"
    proof (cases session)
      case None
      then show ?thesis by (simp add: w2_def)
    next
      case (Some sid)
      show ?thesis
      proof (cases "isPinned (sessions w sid) \<and> isCommitted (sessions w sid)
                          \<and> \<not> bypassPinningCheck (operation w)")
        case True
        then have "w2 = unpin sid False w" by (simp add: w2_def Some)
        then show ?thesis
          by (intro exI[of _ "[Unpin sid False]"]) (simp add: inner_event_def)
      next
        case False
        then have "w2 = w" by (auto simp: w2_def Some)
        then show ?thesis by simp
      qed
    qed
    then obtain pre where w3: "trace w3 = trace w @ pre" "quiet pre" "filter inner_event pre = []"
        "sessions_kept w w3" "ctx_server (ctx w3) = ctx_server (ctx w)"
      by (auto simp: w3_def sessions_kept_def)
    obtain r4 w4 where inner4: "inner E w3 = (r4, w4)" by (cases "inner E w3")
    have fin: "(r, w') = (case session of
                      None \<Rightarrow> (r4, w4)
                    | Some sid \<Rightarrow>
                        if owner (sessions w4 sid) \<noteq> None \<and> owner (sessions w4 sid) = ownerSym
                        then (r4, snd (endSession E sid w4))
                        else (r4, w4))"
      using run False inner4
      unfolding withSessionBound_def Let_def readPreference_def[symmetric]
         inTransaction'_def[symmetric] w2_def[symmetric] w3_def[symmetric]
      by simp
    from inner4 obtain mid where mid: "trace w4 = trace w3 @ mid" "quiet mid"
        "sessions_kept w3 w4" "retry_run w3 mid r4 w4"
      by (rule inner_run)
    have sk: "sessions_kept w w4" using sessions_kept_trans[OF w3(4) mid(3)] .
    have r: "r = r4" using fin by (auto split: option.splits if_splits)
    have ends_eq: "ends session ownerSym w = ends session ownerSym w4"
      using sk by (auto simp: ends_def sessions_kept_def split: option.splits)
    have fi: "filter inner_event (pre @ mid) = filter inner_event mid"
      using w3(3) by simp
    show ?thesis
    proof (cases "ends session ownerSym w4 = []")
      case True
      then have "w' = w4" using fin by (auto simp: ends_def split: option.splits if_splits)
      then show ?thesis
        using ran[of "pre @ mid"] mid w3 sk True ends_eq r
          retry_run_transfer[OF mid(4) w3(5) refl refl refl fi]
        by simp
    next
      case False
      then obtain sid where sid: "session = Some sid" "ends session ownerSym w4 = [EndSession sid]"
        "w' = snd (endSession E sid w4)"
        using fin by (auto simp: ends_def split: option.splits if_splits)
      have "retry_run w (pre @ mid) r w'"
        using retry_run_transfer[OF mid(4) w3(5) _ _ _ fi, of w'] sid(3) r by simp
      then show ?thesis
        using ran[of "pre @ mid"] mid w3 sid ends_eq by simp
    qed
  qed
qed

lemma bindSession_cases:
  assumes "bindSession tp w = (rb, w1)"
  obtains (failed) "isl rb" "w1 = w"
  | (created) sid ow where "op_session (operation w) = None" "rb = Inr (Some sid, Some ow)"
      "trace w1 = trace w @ [StartSession sid ow]" "owner (sessions w1 sid) = Some ow"
      "\<not> inTransaction (sessions w1 sid)" "ctx w1 = ctx w"
  | (supplied) sid where "op_session (operation w) = Some sid" "rb = Inr (Some sid, None)"
      "w1 = w"
  | (none) "rb = Inr (None, None)" "trace w1 = trace w" "sessions w1 = sessions w"
      "ctx w1 = ctx w"
proof (cases "op_session (operation w)")
  case None
  show ?thesis
  proof (cases "hasSessionSupport tp")
    case True
    with None assms show ?thesis
      by (intro created[of "next_session w" "next_symbol w"])
         (auto simp: bindSession_def Let_def Symbol_def startSession_def log_def)
  next
    case False
    with None assms show ?thesis
      by (intro none) (auto simp: bindSession_def Let_def)
  qed
next
  case (Some sid)
  show ?thesis
  proof (cases "isl rb")
    case True
    with Some assms have "w1 = w"
      by (auto simp: bindSession_def Let_def split: if_splits)
    with True show ?thesis by (rule failed)
  next
    case False
    show ?thesis
    proof (cases "hasSessionSupport tp")
      case True
      with Some assms False show ?thesis
        by (intro supplied[of sid]) (auto simp: bindSession_def Let_def split: if_splits)
    next
      case nosup: False
      with Some assms False show ?thesis
        by (intro none) (auto simp: bindSession_def Let_def split: if_splits)
    qed
  qed
qed

lemma retry_run_stopped:
  "isl r \<Longrightarrow> filter inner_event new = [] \<Longrightarrow> ctx_server (ctx w') = ctx_server (ctx w)
     \<Longrightarrow> retry_run w new r w'"
  by (simp add: retry_run_def)

lemma session_lifecycle_quiet:
  "quiet new \<Longrightarrow> sessions_kept w w' \<Longrightarrow> session_lifecycle w new w'"
  by (simp add: session_lifecycle_def split: option.splits)

lemma withSession_run:
  assumes run: "withSession E (inner E) w = (r, w')"
  obtains new where "trace w' = trace w @ new" "retry_run w new r w'"
    "session_lifecycle w new w'"
proof (cases "topology (client w)")
  case None
  with run have "isl r" "w' = w" by (auto simp: withSession_def)
  then show ?thesis
    using that[of "[]"] by (simp add: retry_run_stopped session_lifecycle_quiet)
next
  case (Some tp)
  define chk where "chk = (if shouldCheckForSessionSupport tp
                 then (case selectServerAsync E
                              (Some (readPreferenceSelector (Some primaryPreferred))) None w of
                         (Inl e, w0) \<Rightarrow> (Inl e, w0)
                       | (Inr _, w0) \<Rightarrow> (Inr (), w0))
                 else (Inr (), w))"
  obtain r0 w0 where chk0: "chk = (r0, w0)" by (cases chk)
  have "\<exists>pre0. trace w0 = trace w @ pre0 \<and> quiet pre0 \<and> filter inner_event pre0 = []
      \<and> sessions w0 = sessions w \<and> ctx w0 = ctx w \<and> operation w0 = operation w"
  proof (cases "shouldCheckForSessionSupport tp")
    case True
    then have "w0 = log (SelectServer (Some (readPreferenceSelector (Some primaryPreferred))) None) w"
      using chk0 by (auto simp: chk_def selectServerAsync_def split: sum.splits)
    then show ?thesis
      by (intro exI[of _ "[SelectServer (Some (readPreferenceSelector (Some primaryPreferred))) None]"])
         (simp add: inner_event_def)
  next
    case False
    then have "w0 = w" using chk0 by (simp add: chk_def)
    then show ?thesis by simp
  qed
  then obtain pre0 where w0: "trace w0 = trace w @ pre0" "quiet pre0"
      "filter inner_event pre0 = []" "sessions w0 = sessions w" "ctx w0 = ctx w"
      "operation w0 = operation w"
    by blast
  have k0: "sessions_kept w w0" by (simp add: sessions_kept_def w0)
  have unfold: "withSession E (inner E) w =
          (case chk of
             (Inl e, w0) \<Rightarrow> (Inl e, w0)
           | (Inr _, w0) \<Rightarrow>
               (case bindSession tp w0 of
                  (Inl e, w1) \<Rightarrow> (Inl e, w1)
                | (Inr (session, ownerSym), w1) \<Rightarrow>
                    withSessionBound E session ownerSym (inner E) w1))"
    using Some unfolding withSession_def chk_def by simp
  show ?thesis
  proof (cases r0)
    case (Inl e)
    then have "isl r" "w' = w0" using run unfolding unfold chk0 by auto
    then show ?thesis
      using that[of pre0] w0 k0 by (simp add: retry_run_stopped session_lifecycle_quiet)
  next
    case (Inr u)
    obtain rb w1 where bind: "bindSession tp w0 = (rb, w1)" by (cases "bindSession tp w0")
    have step: "(r, w') = (case rb of Inl e \<Rightarrow> (Inl e, w1)
                 | Inr (session, ownerSym) \<Rightarrow> withSessionBound E session ownerSym (inner E) w1)"
      using run bind unfolding unfold chk0 Inr by (auto split: sum.splits)
    from bind show ?thesis
    proof (cases rule: bindSession_cases)
      case failed
      then have "isl r" "w' = w0" using step by (auto split: sum.splits)
      then show ?thesis
        using that[of pre0] w0 k0 by (simp add: retry_run_stopped session_lifecycle_quiet)
    next
      case (created sid ow)
      then have b: "withSessionBound E (Some sid) (Some ow) (inner E) w1 = (r, w')"
        using step by simp
      from b show ?thesis
      proof (cases rule: withSessionBound_run)
        case (early sid')
        then show ?thesis using created by simp
      next
        case (ran mid)
        have e: "ends (Some sid) (Some ow) w1 = [EndSession sid]"
          using created by (simp add: ends_def)
        have tr: "trace w' = trace w @ (pre0 @ [StartSession sid ow] @ mid @ [EndSession sid])"
          using ran(1) e created(3) w0(1) by simp
        have fi: "filter inner_event (pre0 @ [StartSession sid ow] @ mid @ [EndSession sid])
                    = filter inner_event mid"
          using w0(3) by (simp add: inner_event_def)
        have cs: "ctx_server (ctx w1) = ctx_server (ctx w)" using created(6) w0(5) by simp
        have rr: "retry_run w (pre0 @ [StartSession sid ow] @ mid @ [EndSession sid]) r w'"
          using retry_run_transfer[OF ran(3) cs refl refl refl fi] .
        have sl: "session_lifecycle w (pre0 @ [StartSession sid ow] @ mid @ [EndSession sid]) w'"
          using created(1) w0(2,6) ran(2)
          unfolding session_lifecycle_def by (simp; blast)
        show ?thesis using that[OF tr rr sl] .
      qed
    next
      case (supplied sid)
      then have b: "withSessionBound E (Some sid) None (inner E) w0 = (r, w')"
        using step by simp
      have e: "ends (Some sid) None w0 = []" by (auto simp: ends_def)
      from b show ?thesis
      proof (cases rule: withSessionBound_run)
        case (early sid')
        then show ?thesis
          using that[of pre0] w0 k0 by (simp add: retry_run_stopped session_lifecycle_quiet)
      next
        case (ran mid)
        have tr: "trace w' = trace w @ (pre0 @ mid)" using ran(1) e w0(1) by simp
        have fi: "filter inner_event (pre0 @ mid) = filter inner_event mid" using w0(3) by simp
        have cs: "ctx_server (ctx w0) = ctx_server (ctx w)" using w0(5) by simp
        have rr: "retry_run w (pre0 @ mid) r w'"
          using retry_run_transfer[OF ran(3) cs refl refl refl fi] .
        have "sessions_kept w w'" using ran(4) e sessions_kept_trans[OF k0] by simp
        then have sl: "session_lifecycle w (pre0 @ mid) w'"
          using w0(2) ran(2) by (simp add: session_lifecycle_quiet)
        show ?thesis using that[OF tr rr sl] .
      qed
    next
      case none
      then have b: "withSessionBound E None None (inner E) w1 = (r, w')"
        using step by simp
      have e: "ends None None w1 = []" by (simp add: ends_def)
      have k1: "sessions_kept w w1" using none(3) w0(4) by (simp add: sessions_kept_def)
      from b show ?thesis
      proof (cases rule: withSessionBound_run)
        case (early sid')
        then show ?thesis by simp
      next
        case (ran mid)
        have tr: "trace w' = trace w @ (pre0 @ mid)" using ran(1) e w0(1) none(2) by simp
        have fi: "filter inner_event (pre0 @ mid) = filter inner_event mid" using w0(3) by simp
        have cs: "ctx_server (ctx w1) = ctx_server (ctx w)" using w0(5) none(4) by simp
        have rr: "retry_run w (pre0 @ mid) r w'"
          using retry_run_transfer[OF ran(3) cs refl refl refl fi] .
        have "sessions_kept w w'" using ran(4) e sessions_kept_trans[OF k1] by simp
        then have sl: "session_lifecycle w (pre0 @ mid) w'"
          using w0(2) ran(2) by (simp add: session_lifecycle_quiet)
        show ?thesis using that[OF tr rr sl] .
      qed
    qed
  qed
qed

section \<open>Properties of the execution pipeline: whole runs\<close>

lemma withConnectedClient_cases:
  assumes "withConnectedClient E next w = (r, w')"
  obtains (stopped) pre where "isl r" "trace w' = trace w @ pre" "quiet pre"
      "filter inner_event pre = []" "sessions w' = sessions w" "ctx w' = ctx w"
  | (entered) w1 pre where "next w1 = (r, w')" "trace w1 = trace w @ pre" "quiet pre"
      "filter inner_event pre = []" "sessions w1 = sessions w" "ctx w1 = ctx w"
      "operation w1 = operation w"
proof (cases "topology (client w) = None")
  case False
  then have "next w = (r, w')" using assms by (auto simp: withConnectedClient_def)
  then show ?thesis using entered[of w "[]"] by simp
next
  case True
  show ?thesis
  proof (cases "hasBeenClosed (client w)")
    case closed: True
    then have "isl r" "w' = w" using assms True by (auto simp: withConnectedClient_def)
    then show ?thesis using stopped[of "[]"] by simp
  next
    case False
    define w1 where "w1 = log Connect (w\<lparr>client := (client w)\<lparr>skipPingOnConnect := True\<rparr>\<rparr>)"
    have w1: "trace w1 = trace w @ [Connect]" "sessions w1 = sessions w" "ctx w1 = ctx w"
      "operation w1 = operation w"
      by (simp_all add: w1_def log_def)
    show ?thesis
    proof (cases "connect_outcome E")
      case (Inl e)
      then have "isl r" "w' = w1\<lparr>client := (client w1)\<lparr>skipPingOnConnect := False\<rparr>\<rparr>"
        using assms True False
        by (auto simp: withConnectedClient_def Let_def w1_def)
      then show ?thesis using stopped[of "[Connect]"] w1 by (simp add: inner_event_def)
    next
      case (Inr t)
      then have "next (w1\<lparr>client := (client w1)\<lparr>topology := t, skipPingOnConnect := False\<rparr>\<rparr>)
                   = (r, w')"
        using assms True False
        by (auto simp: withConnectedClient_def Let_def w1_def)
      then show ?thesis
        using entered[of "w1\<lparr>client := (client w1)\<lparr>topology := t, skipPingOnConnect := False\<rparr>\<rparr>"
                         "[Connect]"] w1
        by (simp add: inner_event_def)
    qed
  qed
qed

lemma dispatch_Cons: "dispatch (fn # rest) nxt = fn (dispatch rest nxt)"
  by (rule ext) simp

lemma execute_unfold: "execute E = withConnectedClient E (withSession E (inner E))"
  by (simp add: execute_def pipe_def inner_def dispatch_Cons)

lemma session_lifecycle_from:
  assumes "session_lifecycle w1 new w'"
      and "operation w1 = operation w" "sessions w1 = sessions w" "quiet pre"
  shows "session_lifecycle w (pre @ new) w'"
proof (cases "op_session (operation w)")
  case (Some sid)
  then show ?thesis
    using assms by (simp add: session_lifecycle_def sessions_kept_def)
next
  case None
  then have "(quiet new \<and> sessions_kept w1 w')
          \<or> (\<exists>pre1 mid sid ow. new = pre1 @ [StartSession sid ow] @ mid @ [EndSession sid]
                \<and> quiet pre1 \<and> quiet mid)"
    using assms(1,2) by (simp add: session_lifecycle_def)
  then show ?thesis
  proof
    assume "quiet new \<and> sessions_kept w1 w'"
    then show ?thesis using assms None by (simp add: session_lifecycle_def sessions_kept_def)
  next
    assume "\<exists>pre1 mid sid ow. new = pre1 @ [StartSession sid ow] @ mid @ [EndSession sid]
                \<and> quiet pre1 \<and> quiet mid"
    then obtain pre1 mid sid ow where
      "new = pre1 @ [StartSession sid ow] @ mid @ [EndSession sid]" "quiet pre1" "quiet mid"
      by blast
    then have "pre @ new = (pre @ pre1) @ [StartSession sid ow] @ mid @ [EndSession sid]
                \<and> quiet (pre @ pre1) \<and> quiet mid"
      using assms(4) by simp
    then have "\<exists>p mid sid ow. pre @ new = p @ [StartSession sid ow] @ mid @ [EndSession sid]
                \<and> quiet p \<and> quiet mid"
      by blast
    then show ?thesis unfolding session_lifecycle_def None by simp
  qed
qed

lemma execute_run:
  assumes run: "execute E w = (r, w')"
  obtains new where "trace w' = trace w @ new" "retry_run w new r w'"
    "session_lifecycle w new w'"
proof -
  from run have "withConnectedClient E (withSession E (inner E)) w = (r, w')"
    by (simp add: execute_unfold)
  then show ?thesis
  proof (cases rule: withConnectedClient_cases)
    case (stopped pre)
    then show ?thesis
      using that[of pre]
      by (simp add: retry_run_stopped session_lifecycle_quiet sessions_kept_def)
  next
    case (entered w1 pre)
    from entered(1) obtain new where new: "trace w' = trace w1 @ new" "retry_run w1 new r w'"
      "session_lifecycle w1 new w'"
      by (rule withSession_run)
    have tr: "trace w' = trace w @ (pre @ new)" using new(1) entered(2) by simp
    have fi: "filter inner_event (pre @ new) = filter inner_event new" using entered(4) by simp
    have cs: "ctx_server (ctx w1) = ctx_server (ctx w)" using entered(6) by simp
    have rr: "retry_run w (pre @ new) r w'"
      using retry_run_transfer[OF new(2) cs refl refl refl fi] .
    have sl: "session_lifecycle w (pre @ new) w'"
      using session_lifecycle_from[OF new(3) entered(7) entered(5) entered(3)] .
    show ?thesis using that[OF tr rr sl] .
  qed
qed

lemma executeOperationAsync_run:
  assumes run: "executeOperationAsync E w = (res, w')"
  obtains r new where "trace w' = trace w @ new"
    "retry_run (w\<lparr>ctx := new_Context\<rparr>) new r w'"
    "session_lifecycle w new w'"
    "res = (case r of Inl e \<Rightarrow> Inl e | Inr u \<Rightarrow> Inr (ctx_result (ctx w')))"
proof -
  obtain r w2 where ex: "execute E (w\<lparr>ctx := new_Context\<rparr>) = (r, w2)"
    by (cases "execute E (w\<lparr>ctx := new_Context\<rparr>)")
  with run have res: "w' = w2" "res = (case r of Inl e \<Rightarrow> Inl e | Inr u \<Rightarrow> Inr (ctx_result (ctx w')))"
    by (auto simp: executeOperationAsync_def split: sum.splits)
  from ex obtain new where new: "trace w2 = trace (w\<lparr>ctx := new_Context\<rparr>) @ new"
    "retry_run (w\<lparr>ctx := new_Context\<rparr>) new r w2"
    "session_lifecycle (w\<lparr>ctx := new_Context\<rparr>) new w2"
    by (rule execute_run)
  have "session_lifecycle w ([] @ new) w2"
    by (rule session_lifecycle_from[OF new(3)]) simp_all
  then show ?thesis using that[of new r] new res by simp
qed

lemma new_events_append: "trace w' = trace w @ new \<Longrightarrow> new_events w w' = new"
  by (simp add: new_events_def)

lemma filter_Execute_inner:
  "filter is_Execute new = filter is_Execute (filter inner_event new)"
  by (simp add: inner_event_def) (metis (mono_tags, lifting) filter_cong)

lemma filter_Execute_increments [simp]: "filter is_Execute (increments w) = []"
  by (simp add: increments_def split: option.splits)

lemma attempts_Execute: "attempts execs r w' \<Longrightarrow> filter is_Execute execs = execs"
  by (auto simp: attempts_def)

lemma retry_run_executions:
  assumes "retry_run w new r w'"
  shows "filter is_Execute new = [] \<or> attempts (filter is_Execute new) r w'"
proof -
  from assms consider "filter inner_event new = []"
    | w1 execs where "filter inner_event new = increments w1 @ execs" "attempts execs r w'"
    unfolding retry_run_def by blast
  then show ?thesis
  proof cases
    case 1
    then show ?thesis using filter_Execute_inner[of new] by simp
  next
    case 2
    then have "filter is_Execute new = execs"
      using filter_Execute_inner[of new] attempts_Execute[OF 2(2)] by simp
    then show ?thesis using 2(2) by simp
  qed
qed

text \<open>
  Claim C5. In every run of \<open>executeOperationAsync\<close>, whatever the collaborators answer
  and whatever errors are raised, the run calls \<open>operation.executeAsync\<close> at most twice.
\<close>

theorem at_most_two_attempts:
  "length (filter is_Execute (new_events w (snd (executeOperationAsync E w)))) \<le> 2"
proof -
  obtain res w' where run: "executeOperationAsync E w = (res, w')"
    by (cases "executeOperationAsync E w")
  from run obtain r new where new: "trace w' = trace w @ new"
    "retry_run (w\<lparr>ctx := new_Context\<rparr>) new r w'"
    by (rule executeOperationAsync_run)
  have "length (filter is_Execute new) \<le> 2"
    using retry_run_executions[OF new(2)] by (auto simp: attempts_def)
  then show ?thesis using run new_events_append[OF new(1)] by simp
qed

text \<open>
  What \<open>withRetryability\<close> does when the second attempt succeeds: the inner \<open>try\<close>
  completes, control leaves the \<open>if\<close> block and reaches \<open>throw operationError\<close>. In
  every run with a failed first and a successful second invocation, the run rejects with
  the first attempt's error, while the context holds the second attempt's result.
\<close>

lemma retry_success_rejects_with_first_error:
  assumes "executeOperationAsync E w = (res, w')"
      and "filter is_Execute (new_events w w')
             = [Execute sv ss (Inl e1), Execute sv' ss' (Inr d)]"
  shows "res = Inl e1 \<and> ctx_result (ctx w') = Some d"
proof -
  from assms(1) obtain r new where new: "trace w' = trace w @ new"
    "retry_run (w\<lparr>ctx := new_Context\<rparr>) new r w'"
    "res = (case r of Inl e \<Rightarrow> Inl e | Inr u \<Rightarrow> Inr (ctx_result (ctx w')))"
    by (rule executeOperationAsync_run)
  have ex: "filter is_Execute new = [Execute sv ss (Inl e1), Execute sv' ss' (Inr d)]"
    using assms(2) new_events_append[OF new(1)] by simp
  then have "attempts [Execute sv ss (Inl e1), Execute sv' ss' (Inr d)] r w'"
    using retry_run_executions[OF new(2)] by simp
  then have "r = Inl e1" "ctx_result (ctx w') = Some d"
    by (auto simp: attempts_def second_outcome_def)
  then show ?thesis using new(3) by simp
qed

text \<open>
  Claim C1, evaluated on the code. The claim says that a run whose first invocation fails
  with a retry-eligible error and whose re-invocation succeeds returns the second
  attempt's result. In the run below (a retryable write on a replica set, an implicit
  session, the first \<open>executeAsync\<close> failing with an error labelled
  \<open>RetryableWriteError\<close>, the second answering \<open>{ok: 1}\<close>) the operation is invoked
  twice, the second invocation succeeds, and \<open>executeOperationAsync\<close> rejects with the
  first attempt's error.
\<close>

theorem retry_success_is_rejected:
  "filter is_Execute (new_events example_world
       (snd (executeOperationAsync example_env example_world)))
     = [Execute (Some example_server) (Some 0) (Inl retryable_error),
        Execute (Some example_server) (Some 0) (Inr ''{ok: 1}'')]
   \<and> fst (executeOperationAsync example_env example_world) = Inl retryable_error
   \<and> ctx_result (ctx (snd (executeOperationAsync example_env example_world)))
       = Some ''{ok: 1}''"
  by code_simp

text \<open>
  Claim C2. In every run in which the operation is invoked twice and both invocations
  fail, with errors \<open>e1\<close> and then \<open>e2\<close>: if \<open>e2\<close> is a driver error carrying the label
  \<open>NoWritesPerformed\<close>, the run rejects with \<open>e1\<close>, the very error of the first
  attempt; otherwise it rejects with \<open>e2\<close>.
\<close>

theorem second_failure_surfaced:
  assumes "executeOperationAsync E w = (res, w')"
      and "filter is_Execute (new_events w w')
             = [Execute sv ss (Inl e1), Execute sv' ss' (Inl e2)]"
  shows "res = Inl (if instanceof_MongoError e2 \<and> hasErrorLabel e2 NoWritesPerformed
                    then e1 else e2)"
proof -
  from assms(1) obtain r new where new: "trace w' = trace w @ new"
    "retry_run (w\<lparr>ctx := new_Context\<rparr>) new r w'"
    "res = (case r of Inl e \<Rightarrow> Inl e | Inr u \<Rightarrow> Inr (ctx_result (ctx w')))"
    by (rule executeOperationAsync_run)
  have ex: "filter is_Execute new = [Execute sv ss (Inl e1), Execute sv' ss' (Inl e2)]"
    using assms(2) new_events_append[OF new(1)] by simp
  then have "attempts [Execute sv ss (Inl e1), Execute sv' ss' (Inl e2)] r w'"
    using retry_run_executions[OF new(2)] by simp
  then have "r = Inl (if instanceof_MongoError e2 \<and> hasErrorLabel e2 NoWritesPerformed
                    then e1 else e2)"
    by (auto simp: attempts_def second_outcome_def)
  then show ?thesis using new(3) by simp
qed

lemma example_failing_run_attempts:
  "filter is_Execute (new_events example_world_explicit
       (snd (executeOperationAsync example_env_failing example_world_explicit)))
     = [Execute (Some example_server) (Some 5) (Inl retryable_error),
        Execute (Some example_server) (Some 5) (Inl no_writes_error)]"
  by code_simp

lemma no_writes_error_labelled:
  "instanceof_MongoError no_writes_error \<and> hasErrorLabel no_writes_error NoWritesPerformed"
  by code_simp

theorem second_failure_surfaced_witness:
  "filter is_Execute (new_events example_world_explicit
       (snd (executeOperationAsync example_env_failing example_world_explicit)))
     = [Execute (Some example_server) (Some 5) (Inl retryable_error),
        Execute (Some example_server) (Some 5) (Inl no_writes_error)]
   \<and> instanceof_MongoError no_writes_error
   \<and> hasErrorLabel no_writes_error NoWritesPerformed
   \<and> fst (executeOperationAsync example_env_failing example_world_explicit)
       = Inl retryable_error"
  using second_failure_surfaced [OF surjective_pairing example_failing_run_attempts]
        example_failing_run_attempts no_writes_error_labelled
  by simp


text \<open>
  Claim C3. Take any run that leaves a context with a session \<open>sid\<close> and a server for
  which write-retry eligibility holds as \<open>withRetryability\<close> computes it (the topology
  retries writes, the run is not in a transaction, the selected server supports retryable
  writes, the operation can retry writes), for an operation that is retryable and a
  write. Then, among the attempts and the advances of transaction numbers that the run
  logs, the first event is the one advance of the number of session \<open>sid\<close>, and it is
  followed by one or two attempts and nothing else: the number is advanced once, before
  the first attempt, and not again for the retry.
\<close>

theorem transaction_number_advanced_once:
  assumes "executeOperationAsync E w = (res, w')"
      and "topology (client w') = Some tp" and "retryWrites tp"
      and "ctx_session (ctx w') = Some sid" and "\<not> ctx_inTransaction (ctx w')"
      and "supportsRetryableWrites (ctx_server (ctx w'))"
      and "hasAspect (operation w') RETRYABLE" and "hasAspect (operation w') WRITE_OPERATION"
      and "canRetryWrite (operation w')"
  shows "\<exists>execs. filter (\<lambda>e. is_Execute e \<or> is_IncrementTransactionNumber e) (new_events w w')
                   = IncrementTransactionNumber sid # execs
               \<and> list_all is_Execute execs \<and> (length execs = 1 \<or> length execs = 2)"
proof -
  from assms(1) obtain r new where new: "trace w' = trace w @ new"
    "retry_run (w\<lparr>ctx := new_Context\<rparr>) new r w'"
    by (rule executeOperationAsync_run)
  have "ctx_server (ctx w') \<noteq> None"
    using assms(6) by (cases "ctx_server (ctx w')") (auto simp: supportsRetryableWrites_def)
  then have "ctx_server (ctx w') \<noteq> ctx_server (ctx (w\<lparr>ctx := new_Context\<rparr>))"
    by (simp add: new_Context_def)
  with new(2) obtain w1 execs where w1: "filter inner_event new = increments w1 @ execs"
    "attempts execs r w'" "same_setup w1 w'"
    unfolding retry_run_def by blast
  have s: "client w1 = client w'" "aspects (operation w1) = aspects (operation w')"
      "canRetryWrite (operation w1) = canRetryWrite (operation w')"
      "ctx_session (ctx w1) = ctx_session (ctx w')"
      "ctx_inTransaction (ctx w1) = ctx_inTransaction (ctx w')"
      "ctx_server (ctx w1) = ctx_server (ctx w')"
    using w1(3) unfolding same_setup_def by auto
  have "increments w1 = [IncrementTransactionNumber sid]"
    unfolding increments_def hasAspect_def s using assms(2-9)
    by (simp add: hasAspect_def)
  moreover have "list_all is_Execute execs \<and> (length execs = 1 \<or> length execs = 2)"
    using w1(2) by (auto simp: attempts_def)
  ultimately show ?thesis
    using w1(1) new_events_append[OF new(1)] unfolding inner_event_def by simp
qed

lemma example_run_setup:
  "topology (client (snd (executeOperationAsync example_env example_world)))
     = Some example_topology"
  "retryWrites example_topology"
  "ctx_session (ctx (snd (executeOperationAsync example_env example_world))) = Some 0"
  "\<not> ctx_inTransaction (ctx (snd (executeOperationAsync example_env example_world)))"
  "supportsRetryableWrites
     (ctx_server (ctx (snd (executeOperationAsync example_env example_world))))"
  "hasAspect (operation (snd (executeOperationAsync example_env example_world))) RETRYABLE"
  "hasAspect (operation (snd (executeOperationAsync example_env example_world)))
     WRITE_OPERATION"
  "canRetryWrite (operation (snd (executeOperationAsync example_env example_world)))"
  by code_simp+

theorem transaction_number_advanced_once_witness:
  "topology (client (snd (executeOperationAsync example_env example_world)))
     = Some example_topology
   \<and> retryWrites example_topology
   \<and> ctx_session (ctx (snd (executeOperationAsync example_env example_world))) = Some 0
   \<and> \<not> ctx_inTransaction (ctx (snd (executeOperationAsync example_env example_world)))
   \<and> supportsRetryableWrites
       (ctx_server (ctx (snd (executeOperationAsync example_env example_world))))
   \<and> hasAspect (operation (snd (executeOperationAsync example_env example_world))) RETRYABLE
   \<and> hasAspect (operation (snd (executeOperationAsync example_env example_world)))
       WRITE_OPERATION
   \<and> canRetryWrite (operation (snd (executeOperationAsync example_env example_world)))
   \<and> (\<exists>execs. filter (\<lambda>e. is_Execute e \<or> is_IncrementTransactionNumber e)
                  (new_events example_world
                     (snd (executeOperationAsync example_env example_world)))
                = IncrementTransactionNumber 0 # execs
              \<and> list_all is_Execute execs \<and> (length execs = 1 \<or> length execs = 2))"
  using transaction_number_advanced_once [OF surjective_pairing example_run_setup]
        example_run_setup
  by simp


section \<open>Properties of the execution pipeline: sessions\<close>

lemma env_endSession_update:
  "select_outcome (E\<lparr>endSession_outcome := x\<rparr>) = select_outcome E"
  "execute_outcome (E\<lparr>endSession_outcome := x\<rparr>) = execute_outcome E"
  "connect_outcome (E\<lparr>endSession_outcome := x\<rparr>) = connect_outcome E"
  "isRetryableWriteError (E\<lparr>endSession_outcome := x\<rparr>) = isRetryableWriteError E"
  "isRetryableReadError (E\<lparr>endSession_outcome := x\<rparr>) = isRetryableReadError E"
  by simp_all

lemma runCommand_endSession_irrelevant:
  "runCommand (E\<lparr>endSession_outcome := x\<rparr>) = runCommand E"
  by (rule ext) (unfold runCommand_def env_endSession_update, rule refl)

lemma retryOnError_endSession_irrelevant:
  "retryOnError (E\<lparr>endSession_outcome := x\<rparr>) = retryOnError E"
  by (intro ext) (unfold retryOnError_def selectServerAsync_def env_endSession_update, rule refl)

lemma withRetryability_endSession_irrelevant:
  "withRetryability (E\<lparr>endSession_outcome := x\<rparr>) = withRetryability E"
  by (intro ext)
     (unfold withRetryability_def retryOnError_endSession_irrelevant env_endSession_update, rule refl)

lemma withServer_endSession_irrelevant:
  "withServer (E\<lparr>endSession_outcome := x\<rparr>) = withServer E"
  by (intro ext) (unfold withServer_def selectServerAsync_def env_endSession_update, rule refl)

lemma inner_endSession_irrelevant:
  "inner (E\<lparr>endSession_outcome := x\<rparr>) = inner E"
  by (simp add: inner_def runCommand_endSession_irrelevant
        withRetryability_endSession_irrelevant withServer_endSession_irrelevant)

lemma same_answer_refl [simp]: "same_answer a a"
  by (simp add: same_answer_def)

lemma withSessionBound_endSession_irrelevant:
  "same_answer (withSessionBound (E\<lparr>endSession_outcome := x\<rparr>) session ownerSym next w)
               (withSessionBound E session ownerSym next w)"
  by (simp add: withSessionBound_def Let_def same_answer_def split: prod.split option.split)

lemma withSession_endSession_irrelevant:
  "same_answer (withSession (E\<lparr>endSession_outcome := x\<rparr>) next w) (withSession E next w)"
  by (simp add: withSession_def selectServerAsync_def withSessionBound_endSession_irrelevant
        split: option.split prod.split sum.split)

lemma withConnectedClient_endSession_irrelevant:
  assumes "\<And>w. same_answer (n' w) (n w)"
  shows "same_answer (withConnectedClient (E\<lparr>endSession_outcome := x\<rparr>) n' w)
                     (withConnectedClient E n w)"
  using assms
  by (simp add: withConnectedClient_def Let_def split: sum.split)

lemma executeOperationAsync_endSession_irrelevant:
  "fst (executeOperationAsync (E\<lparr>endSession_outcome := x\<rparr>) w) = fst (executeOperationAsync E w)"
proof -
  have "same_answer (execute (E\<lparr>endSession_outcome := x\<rparr>) (w\<lparr>ctx := new_Context\<rparr>))
                    (execute E (w\<lparr>ctx := new_Context\<rparr>))"
    unfolding execute_unfold inner_endSession_irrelevant
    by (rule withConnectedClient_endSession_irrelevant)
       (rule withSession_endSession_irrelevant)
  then show ?thesis
    by (auto simp: executeOperationAsync_def same_answer_def split: prod.splits sum.splits)
qed

lemma quiet_no_StartSession: "quiet xs \<Longrightarrow> StartSession a b \<notin> set xs"
  by (induction xs) auto

lemma quiet_no_EndSession: "quiet xs \<Longrightarrow> list_all (\<lambda>e. \<not> is_EndSession e) xs"
  by (induction xs) (auto elim: is_EndSession.elims)

text \<open>
  Claim C4. In every run of \<open>executeOperationAsync\<close>, with outcome \<open>res\<close>, success or
  failure: if the run started a session (the implicit session, tagged with the run's own
  symbol), the last event of the run is \<open>endSession\<close> on that session, and it is the
  only such call; the outcome of the run is the same whatever \<open>endSession\<close> answers,
  so its error is suppressed; and if the operation came with a session, the run calls
  \<open>endSession\<close> on no session and that session has ended afterwards exactly if it had
  before.
\<close>

theorem implicit_session_ended_supplied_session_kept:
  assumes "executeOperationAsync E w = (res, w')"
  shows "(\<forall>sid ow. StartSession sid ow \<in> set (new_events w w') \<longrightarrow>
            (\<exists>evs. new_events w w' = evs @ [EndSession sid]
                  \<and> list_all (\<lambda>e. \<not> is_EndSession e) evs))
       \<and> (\<forall>x. fst (executeOperationAsync (E\<lparr>endSession_outcome := x\<rparr>) w) = res)
       \<and> (\<forall>sid. op_session (operation w) = Some sid \<longrightarrow>
             list_all (\<lambda>e. \<not> is_EndSession e) (new_events w w')
           \<and> hasEnded (sessions w' sid) = hasEnded (sessions w sid))"
proof -
  from assms obtain r new where new: "trace w' = trace w @ new"
    "session_lifecycle w new w'"
    by (rule executeOperationAsync_run)
  have ne: "new_events w w' = new" using new_events_append[OF new(1)] .
  have a: "\<exists>evs. new = evs @ [EndSession sid] \<and> list_all (\<lambda>e. \<not> is_EndSession e) evs"
    if st: "StartSession sid ow \<in> set new" for sid ow
  proof -
    have nq: "\<not> quiet new" using st quiet_no_StartSession by blast
    then obtain pre mid sid' ow' where sh:
      "new = pre @ [StartSession sid' ow'] @ mid @ [EndSession sid']" "quiet pre" "quiet mid"
      using new(2) unfolding session_lifecycle_def by (auto split: option.splits)
    have "StartSession sid ow = StartSession sid' ow'"
      using st sh quiet_no_StartSession[OF sh(2)] quiet_no_StartSession[OF sh(3)] by auto
    then have "sid = sid'" by simp
    moreover have "list_all (\<lambda>e. \<not> is_EndSession e) (pre @ [StartSession sid' ow'] @ mid)"
      using quiet_no_EndSession[OF sh(2)] quiet_no_EndSession[OF sh(3)] by simp
    ultimately show ?thesis using sh(1) by (intro exI[of _ "pre @ [StartSession sid' ow'] @ mid"]) simp
  qed
  have b: "fst (executeOperationAsync (E\<lparr>endSession_outcome := x\<rparr>) w) = res" for x
    using executeOperationAsync_endSession_irrelevant[where E = E and x = x and w = w] assms
    by simp
  have c: "list_all (\<lambda>e. \<not> is_EndSession e) new
           \<and> hasEnded (sessions w' sid) = hasEnded (sessions w sid)"
    if "op_session (operation w) = Some sid" for sid
    using new(2) that quiet_no_EndSession
    unfolding session_lifecycle_def by (simp add: sessions_kept_def)
  show ?thesis unfolding ne using a b c by blast
qed

lemma example_run_sessions:
  "StartSession 0 0 \<in> set (new_events example_world
       (snd (executeOperationAsync example_env example_world)))"
  "op_session (operation example_world_explicit) = Some 5"
  by code_simp+

theorem implicit_session_ended_supplied_session_kept_witness:
  "StartSession 0 0 \<in> set (new_events example_world
       (snd (executeOperationAsync example_env example_world)))
   \<and> (\<exists>evs. new_events example_world (snd (executeOperationAsync example_env example_world))
              = evs @ [EndSession 0]
            \<and> list_all (\<lambda>e. \<not> is_EndSession e) evs)
   \<and> fst (executeOperationAsync (example_env\<lparr>endSession_outcome := None\<rparr>) example_world)
       = fst (executeOperationAsync example_env example_world)
   \<and> op_session (operation example_world_explicit) = Some 5
   \<and> list_all (\<lambda>e. \<not> is_EndSession e)
       (new_events example_world_explicit
          (snd (executeOperationAsync example_env_failing example_world_explicit)))
   \<and> hasEnded (sessions (snd (executeOperationAsync example_env_failing example_world_explicit)) 5)
       = hasEnded (sessions example_world_explicit 5)"
  using implicit_session_ended_supplied_session_kept
          [OF surjective_pairing, where E = example_env and w = example_world]
        implicit_session_ended_supplied_session_kept
          [OF surjective_pairing, where E = example_env_failing
             and w = example_world_explicit]
        example_run_sessions
  by blast

end
